theory Spec2Isabelle
  imports Main "HOL-Library.AList"
begin

section \<open>The chat server of \<open>src/backend/index.js\<close>\<close>

text \<open>
  The server keeps three module-level maps (\<open>rooms\<close>, \<open>userSockets\<close>,
  \<open>messageLimiter\<close>) and registers five handlers per socket. The model below passes
  these maps around as one record and returns, with the new state, the list of events a
  handler emits.

  Conventions of the model:
  \<^item> A JavaScript string is a list of code units; the model covers the code units
    \<open>0 .. 255\<close> (type \<open>char\<close>), on which \<open>trim\<close> and \<open>toLowerCase\<close> are
    written out below.
  \<^item> A payload field is a \<open>jsval\<close>: a string, or any other value (\<open>undefined\<close>,
    \<open>null\<close>, a number, an object), for which every \<open>validate...\<close> helper returns false.
    A payload that cannot be destructured at all (\<open>undefined\<close> or \<open>null\<close>) is \<open>None\<close>.
  \<^item> \<open>Date.now()\<close> is an input of each handler: one clock reading \<open>now\<close> per event.
  \<^item> A socket id is a string, as in socket.io. The socket.io library is not part of the
    repository; its room bookkeeping is the field \<open>sio_rooms\<close> (the set of sockets that
    are in room \<open>r\<close>: they joined it and have neither left it nor disconnected). A
    socket that connects is put into the room named by its own id (event \<open>Connect\<close>);
    \<open>io.to(r).emit\<close> reaches whoever is in room \<open>r\<close>, and \<open>socket.to(r).emit\<close> the same
    sockets without the sender.
  \<^item> \<open>rooms\<close> is an association list in insertion order, as a JavaScript \<open>Map\<close>
    iterates: \<open>AList.update\<close> replaces a present key in place and appends an absent one,
    \<open>AList.delete\<close> removes the key.
\<close>

subsection \<open>Data\<close>

type_synonym socketId = string

datatype jsval = JString string | JOther

record member =
  m_username :: string
  m_socketId :: socketId
  m_joinedAt :: int

record userData =
  ud_room :: string
  ud_username :: string

record state =
  rooms :: "(string \<times> member list) list"
  userSockets :: "socketId \<rightharpoonup> userData"
  messageLimiter :: "socketId \<rightharpoonup> int list"
  sio_rooms :: "string \<Rightarrow> socketId set"

definition init_state :: state where
  "init_state = \<lparr>rooms = [], userSockets = Map.empty, messageLimiter = Map.empty,
     sio_rooms = (\<lambda>r. {})\<rparr>"

text \<open>The events a handler sends, and the sockets each one goes to.\<close>

datatype message =
  SystemMessage string int
  | UserMessage string string string int "socketId \<times> int"

datatype out_event =
  Error string
  | RoomUsers "string list"
  | UserListUpdate "string list"
  | ReceiveMessage message
  | UserTyping jsval bool

datatype emission = Emit "socketId set" out_event

fun recipients :: "emission \<Rightarrow> socketId set" where
  "recipients (Emit R ev) = R"

fun payload :: "emission \<Rightarrow> out_event" where
  "payload (Emit R ev) = ev"

definition received :: "emission list \<Rightarrow> socketId \<Rightarrow> out_event list" where
  "received out c = map payload (filter (\<lambda>e. c \<in> recipients e) out)"

subsection \<open>Constants\<close>

definition MAX_USERNAME_LENGTH :: nat where "MAX_USERNAME_LENGTH = 20"

definition MIN_USERNAME_LENGTH :: nat where "MIN_USERNAME_LENGTH = 2"

definition MAX_ROOM_LENGTH :: nat where "MAX_ROOM_LENGTH = 20"

definition MIN_ROOM_LENGTH :: nat where "MIN_ROOM_LENGTH = 2"

definition MAX_MESSAGE_LENGTH :: nat where "MAX_MESSAGE_LENGTH = 500"

definition MESSAGE_RATE_LIMIT :: nat where "MESSAGE_RATE_LIMIT = 10"

definition RATE_LIMIT_WINDOW :: int where "RATE_LIMIT_WINDOW = 5000"

subsection \<open>String helpers of the language\<close>

text \<open>
  \<open>String.prototype.trim\<close> strips white space and line terminators from both ends; among
  the code units below 256 these are TAB, LF, VT, FF, CR, SPACE and NBSP.
\<close>

definition is_space :: "char \<Rightarrow> bool" where
  "is_space c = (of_char c \<in> {9, 10, 11, 12, 13, 32, 160 :: nat})"

definition trim :: "string \<Rightarrow> string" where
  "trim s = rev (dropWhile is_space (rev (dropWhile is_space s)))"

text \<open>
  \<open>String.prototype.toLowerCase\<close> on code units below 256: \<open>A .. Z\<close> and the Latin-1
  capitals \<open>0xC0 .. 0xDE\<close> (without the multiplication sign \<open>0xD7\<close>) move up by 32.
\<close>

definition lower_char :: "char \<Rightarrow> char" where
  "lower_char c =
     (let n = of_char c :: nat
      in if (65 \<le> n \<and> n \<le> 90) \<or> (192 \<le> n \<and> n \<le> 222 \<and> n \<noteq> 215)
         then char_of (n + 32) else c)"

definition toLowerCase :: "string \<Rightarrow> string" where
  "toLowerCase s = map lower_char s"

fun the_string :: "jsval \<Rightarrow> string" where
  "the_string (JString s) = s"
| "the_string JOther = []"

subsection \<open>Validation helpers\<close>

fun validateUsername :: "jsval \<Rightarrow> bool" where
  "validateUsername JOther = False"
| "validateUsername (JString username) =
     (if username = [] then False
      else let trimmed = trim username
           in length trimmed \<ge> MIN_USERNAME_LENGTH \<and> length trimmed \<le> MAX_USERNAME_LENGTH)"

fun validateRoom :: "jsval \<Rightarrow> bool" where
  "validateRoom JOther = False"
| "validateRoom (JString room) =
     (if room = [] then False
      else let trimmed = trim room
           in length trimmed \<ge> MIN_ROOM_LENGTH \<and> length trimmed \<le> MAX_ROOM_LENGTH)"

fun validateMessage :: "jsval \<Rightarrow> bool" where
  "validateMessage JOther = False"
| "validateMessage (JString msg) =
     (if msg = [] then False
      else length (trim msg) > 0 \<and> length msg \<le> MAX_MESSAGE_LENGTH)"

subsection \<open>Rate limiter\<close>

definition checkRateLimit :: "socketId \<Rightarrow> int \<Rightarrow> state \<Rightarrow> bool \<times> state" where
  "checkRateLimit socketId now s =
     (let userLimit = (case messageLimiter s socketId of None \<Rightarrow> [] | Some l \<Rightarrow> l);
          recentMessages = filter (\<lambda>timestamp. now - timestamp < RATE_LIMIT_WINDOW) userLimit
      in if length recentMessages \<ge> MESSAGE_RATE_LIMIT then (False, s)
         else (True, s\<lparr>messageLimiter := (messageLimiter s)(socketId \<mapsto> recentMessages @ [now])\<rparr>))"

subsection \<open>Room registry\<close>

definition getRoomUsers :: "state \<Rightarrow> string \<Rightarrow> member list" where
  "getRoomUsers s room = (case map_of (rooms s) room of None \<Rightarrow> [] | Some users \<Rightarrow> users)"

definition userExistsInRoom :: "state \<Rightarrow> string \<Rightarrow> string \<Rightarrow> bool" where
  "userExistsInRoom s room username =
     (\<exists>u \<in> set (getRoomUsers s room). toLowerCase (m_username u) = toLowerCase username)"

definition addUserToRoom :: "string \<Rightarrow> string \<Rightarrow> socketId \<Rightarrow> int \<Rightarrow> state \<Rightarrow> state" where
  "addUserToRoom room username socketId now s =
     (let rs = (if map_of (rooms s) room = None then AList.update room [] (rooms s) else rooms s);
          users = (case map_of rs room of None \<Rightarrow> [] | Some us \<Rightarrow> us);
          rs' = (if find (\<lambda>u. m_socketId u = socketId) users = None
                 then AList.update room
                        (users @ [\<lparr>m_username = trim username, m_socketId = socketId,
                                   m_joinedAt = now\<rparr>]) rs
                 else rs)
      in s\<lparr>rooms := rs',
           userSockets := (userSockets s)(socketId \<mapsto>
                             \<lparr>ud_room = trim room, ud_username = trim username\<rparr>)\<rparr>)"

definition removeUserFromRoom :: "socketId \<Rightarrow> state \<Rightarrow> userData option \<times> state" where
  "removeUserFromRoom socketId s =
     (case userSockets s socketId of
        None \<Rightarrow> (None, s)
      | Some ud \<Rightarrow>
          (let room = ud_room ud;
               rs = (case map_of (rooms s) room of
                       None \<Rightarrow> rooms s
                     | Some us \<Rightarrow>
                         (let users = filter (\<lambda>u. m_socketId u \<noteq> socketId) us
                          in if length users = 0 then AList.delete room (rooms s)
                             else AList.update room users (rooms s)))
           in (Some ud,
               s\<lparr>rooms := rs,
                 userSockets := (userSockets s)(socketId := None),
                 messageLimiter := (messageLimiter s)(socketId := None)\<rparr>)))"

text \<open>The room listing of \<open>GET /api/rooms\<close>: room, user count and user names, per entry.\<close>

definition api_rooms :: "state \<Rightarrow> (string \<times> nat \<times> string list) list" where
  "api_rooms s = map (\<lambda>(room, users). (room, length users, map m_username users)) (rooms s)"

subsection \<open>The socket.io primitives the handlers call\<close>

definition socket_join :: "socketId \<Rightarrow> string \<Rightarrow> state \<Rightarrow> state" where
  "socket_join sid room s = s\<lparr>sio_rooms := (sio_rooms s)(room := insert sid (sio_rooms s room))\<rparr>"

definition socket_leave :: "socketId \<Rightarrow> string \<Rightarrow> state \<Rightarrow> state" where
  "socket_leave sid room s = s\<lparr>sio_rooms := (sio_rooms s)(room := sio_rooms s room - {sid})\<rparr>"

text \<open>Before socket.io fires \<open>disconnect\<close> it takes the socket out of every room.\<close>

definition socket_leaveAll :: "socketId \<Rightarrow> state \<Rightarrow> state" where
  "socket_leaveAll sid s = s\<lparr>sio_rooms := (\<lambda>r. sio_rooms s r - {sid})\<rparr>"

text \<open>
  \<open>socket.emit\<close> sends to the socket itself, \<open>io.to(room).emit\<close> to every socket in
  the socket.io room, \<open>socket.to(room).emit\<close> to the same sockets without the sender.
  The room named by the id of a socket holds that socket from \<open>connection\<close> (below)
  on: an event sent to a room that bears the id of a connected socket reaches that socket
  too, whether or not it has joined a chat room.
\<close>

definition socket_emit :: "socketId \<Rightarrow> out_event \<Rightarrow> emission" where
  "socket_emit sid ev = Emit {sid} ev"

definition io_to_emit :: "state \<Rightarrow> string \<Rightarrow> out_event \<Rightarrow> emission" where
  "io_to_emit s room ev = Emit (sio_rooms s room) ev"

definition socket_to_emit :: "state \<Rightarrow> socketId \<Rightarrow> string \<Rightarrow> out_event \<Rightarrow> emission" where
  "socket_to_emit s sid room ev = Emit (sio_rooms s room - {sid}) ev"

subsection \<open>Handlers\<close>

record join_payload =
  jp_room :: jsval
  jp_username :: jsval

record message_payload =
  mp_room :: jsval
  mp_author :: jsval
  mp_message :: jsval

record typing_payload =
  tp_room :: jsval
  tp_username :: jsval
  tp_isTyping :: bool

text \<open>
  The callback of \<open>io.on("connection", ...)\<close> logs and registers the handlers; it emits
  nothing. By then socket.io has put the socket into the room named by its id.
\<close>

definition connection :: "socketId \<Rightarrow> state \<Rightarrow> state \<times> emission list" where
  "connection sid s = (socket_join sid sid s, [])"

definition join_room :: "socketId \<Rightarrow> int \<Rightarrow> join_payload option \<Rightarrow> state \<Rightarrow> state \<times> emission list" where
  "join_room sid now data s =
     (case data of
        None \<Rightarrow> (s, [socket_emit sid (Error ''Failed to join room'')])
      | Some d \<Rightarrow>
          if \<not> validateUsername (jp_username d)
          then (s, [socket_emit sid (Error ''Invalid username. Use 2-20 characters.'')])
          else if \<not> validateRoom (jp_room d)
          then (s, [socket_emit sid (Error ''Invalid room ID. Use 2-20 characters.'')])
          else
            (let room = the_string (jp_room d); username = the_string (jp_username d)
             in if userExistsInRoom s room username
                then (s, [socket_emit sid (Error ''Username already taken in this room.'')])
                else
                  (let s1 = socket_join sid room s;
                       s2 = addUserToRoom room username sid now s1;
                       roomUsers = getRoomUsers s2 room
                   in (s2,
                       [socket_emit sid (RoomUsers (map m_username roomUsers)),
                        io_to_emit s2 room (UserListUpdate (map m_username roomUsers)),
                        socket_to_emit s2 sid room
                          (ReceiveMessage (SystemMessage (username @ '' joined the room'') now))]))))"

definition send_message :: "socketId \<Rightarrow> int \<Rightarrow> message_payload option \<Rightarrow> state \<Rightarrow> state \<times> emission list" where
  "send_message sid now data s =
     (case checkRateLimit sid now s of
        (False, s0) \<Rightarrow> (s0, [socket_emit sid (Error ''Too many messages. Please slow down.'')])
      | (True, s1) \<Rightarrow>
          (case data of
             None \<Rightarrow> (s1, [socket_emit sid (Error ''Failed to send message'')])
           | Some d \<Rightarrow>
               if \<not> validateRoom (mp_room d)
               then (s1, [socket_emit sid (Error ''Invalid room'')])
               else if \<not> validateUsername (mp_author d)
               then (s1, [socket_emit sid (Error ''Invalid username'')])
               else if \<not> validateMessage (mp_message d)
               then (s1, [socket_emit sid (Error ''Invalid message'')])
               else
                 (let room = the_string (mp_room d); author = the_string (mp_author d);
                      msg = the_string (mp_message d)
                  in case userSockets s1 sid of
                       None \<Rightarrow> (s1, [socket_emit sid (Error ''Unauthorized message'')])
                     | Some ud \<Rightarrow>
                         if ud_room ud \<noteq> room \<or> ud_username ud \<noteq> author
                         then (s1, [socket_emit sid (Error ''Unauthorized message'')])
                         else (s1,
                               [io_to_emit s1 room
                                  (ReceiveMessage
                                     (UserMessage room author (trim msg) now (sid, now)))]))))"

definition typing :: "socketId \<Rightarrow> typing_payload option \<Rightarrow> state \<Rightarrow> state \<times> emission list" where
  "typing sid data s =
     (case data of
        None \<Rightarrow> (s, [])
      | Some d \<Rightarrow>
          if \<not> validateRoom (tp_room d) \<or> \<not> validateUsername (tp_username d) then (s, [])
          else
            (let room = the_string (tp_room d)
             in case userSockets s sid of
                  None \<Rightarrow> (s, [])
                | Some ud \<Rightarrow>
                    if ud_room ud \<noteq> room then (s, [])
                    else (s, [socket_to_emit s sid room
                                (UserTyping (tp_username d) (tp_isTyping d))])))"

definition leave_room :: "socketId \<Rightarrow> int \<Rightarrow> state \<Rightarrow> state \<times> emission list" where
  "leave_room sid now s =
     (case userSockets s sid of
        None \<Rightarrow> (s, [])
      | Some ud \<Rightarrow>
          (let room = ud_room ud; username = ud_username ud;
               s1 = socket_leave sid room s;
               s2 = snd (removeUserFromRoom sid s1);
               roomUsers = getRoomUsers s2 room
           in (s2,
               [io_to_emit s2 room
                  (ReceiveMessage (SystemMessage (username @ '' left the room'') now)),
                io_to_emit s2 room (UserListUpdate (map m_username roomUsers))])))"

definition disconnect :: "socketId \<Rightarrow> int \<Rightarrow> state \<Rightarrow> state \<times> emission list" where
  "disconnect sid now s =
     (case removeUserFromRoom sid (socket_leaveAll sid s) of
        (None, s1) \<Rightarrow> (s1, [])
      | (Some ud, s1) \<Rightarrow>
          (let room = ud_room ud; username = ud_username ud;
               roomUsers = getRoomUsers s1 room
           in (s1,
               io_to_emit s1 room
                  (ReceiveMessage (SystemMessage (username @ '' left the room'') now))
               # (if length roomUsers > 0
                  then [io_to_emit s1 room (UserListUpdate (map m_username roomUsers))]
                  else []))))"

subsection \<open>Event sequences\<close>

datatype event =
  Connect
  | Join_room "join_payload option"
  | Send_message "message_payload option"
  | Typing "typing_payload option"
  | Leave_room
  | Disconnect

fun handle :: "state \<Rightarrow> socketId \<times> int \<times> event \<Rightarrow> state \<times> emission list" where
  "handle s (sid, now, Connect) = connection sid s"
| "handle s (sid, now, Join_room data) = join_room sid now data s"
| "handle s (sid, now, Send_message data) = send_message sid now data s"
| "handle s (sid, now, Typing data) = typing sid data s"
| "handle s (sid, now, Leave_room) = leave_room sid now s"
| "handle s (sid, now, Disconnect) = disconnect sid now s"

fun run :: "state \<Rightarrow> (socketId \<times> int \<times> event) list \<Rightarrow> state" where
  "run s [] = s"
| "run s (e # es) = run (fst (handle s e)) es"

subsection \<open>Notions used to state the properties\<close>

text \<open>The time stamps recorded for a connection (none when the limiter has no entry).\<close>

definition stored :: "state \<Rightarrow> socketId \<Rightarrow> int list" where
  "stored s sid = (case messageLimiter s sid of None \<Rightarrow> [] | Some l \<Rightarrow> l)"

text \<open>
  \<open>admitted sid s ts\<close>: \<open>checkRateLimit\<close> is called for \<open>sid\<close> at the successive clock
  readings \<open>ts\<close>, starting in \<open>s\<close>; the result lists the readings at which it returned true.
\<close>

fun admitted :: "socketId \<Rightarrow> state \<Rightarrow> int list \<Rightarrow> int list" where
  "admitted sid s [] = []"
| "admitted sid s (t # ts) =
     (case checkRateLimit sid t s of (ok, s') \<Rightarrow> (if ok then [t] else []) @ admitted sid s' ts)"

text \<open>\<open>in_window T t\<close>: the time stamp \<open>t\<close> lies in the 5000 ms that end at \<open>T\<close>.\<close>

definition in_window :: "int \<Rightarrow> int \<Rightarrow> bool" where
  "in_window T t \<longleftrightarrow> t \<le> T \<and> T - t < 5000"

text \<open>
  The same along a sequence of events of any sockets. \<open>send_times sid es\<close>: the clock
  readings of the \<open>send_message\<close> events of \<open>sid\<close> in \<open>es\<close>. \<open>passed sid s es\<close>:
  those of them at which the rate limiter lets the attempt through, when \<open>es\<close> is
  handled from \<open>s\<close> on. \<open>window_kept sid s es\<close>: no \<open>leave_room\<close> or \<open>disconnect\<close> of
  \<open>sid\<close> arrives while \<open>sid\<close> has a binding, which is when \<open>removeUserFromRoom\<close>
  deletes the limiter entry of \<open>sid\<close>.
\<close>

fun send_times :: "socketId \<Rightarrow> (socketId \<times> int \<times> event) list \<Rightarrow> int list" where
  "send_times sid [] = []"
| "send_times sid ((c, now, Send_message data) # es) =
     (if c = sid then now # send_times sid es else send_times sid es)"
| "send_times sid (e # es) = send_times sid es"

fun passed :: "socketId \<Rightarrow> state \<Rightarrow> (socketId \<times> int \<times> event) list \<Rightarrow> int list" where
  "passed sid s [] = []"
| "passed sid s ((c, now, Send_message data) # es) =
     (if c = sid \<and> fst (checkRateLimit sid now s) then [now] else []) @
     passed sid (fst (handle s (c, now, Send_message data))) es"
| "passed sid s (e # es) = passed sid (fst (handle s e)) es"

fun window_kept :: "socketId \<Rightarrow> state \<Rightarrow> (socketId \<times> int \<times> event) list \<Rightarrow> bool" where
  "window_kept sid s [] = True"
| "window_kept sid s ((c, now, ev) # es) =
     ((c = sid \<and> (ev = Leave_room \<or> ev = Disconnect) \<longrightarrow> userSockets s sid = None) \<and>
      window_kept sid (fst (handle s (c, now, ev))) es)"

text \<open>A \<open>join_room\<close> request that passes both validations and the user-name check.\<close>

definition join_succeeds :: "state \<Rightarrow> join_payload \<Rightarrow> bool" where
  "join_succeeds s d \<longleftrightarrow>
     validateUsername (jp_username d) \<and> validateRoom (jp_room d) \<and>
     \<not> userExistsInRoom s (the_string (jp_room d)) (the_string (jp_username d))"

text \<open>
  \<open>memberships s c\<close>: every member entry of socket \<open>c\<close> in the registry, as the pair of
  the room key it stands under and its user name. \<open>corresponds s c\<close>: socket \<open>c\<close> has
  no binding and no member entry, or it has a binding and exactly one member entry, under
  the room of the binding and with the user name of the binding.
\<close>

definition memberships :: "state \<Rightarrow> socketId \<Rightarrow> (string \<times> string) list" where
  "memberships s c =
     concat (map (\<lambda>(room, users).
                    map (\<lambda>u. (room, m_username u)) (filter (\<lambda>u. m_socketId u = c) users))
                 (rooms s))"

definition corresponds :: "state \<Rightarrow> socketId \<Rightarrow> bool" where
  "corresponds s c =
     (case userSockets s c of
        None \<Rightarrow> memberships s c = []
      | Some ud \<Rightarrow> memberships s c = [(ud_room ud, ud_username ud)])"

text \<open>
  \<open>allowed s e\<close>: if \<open>e\<close> is a \<open>join_room\<close> that succeeds in \<open>s\<close>, its socket has no
  binding in \<open>s\<close> and the room it names has no white space at either end.
  \<open>disciplined s es\<close>: every event of \<open>es\<close> is allowed in the state it arrives in.
\<close>

fun allowed :: "state \<Rightarrow> socketId \<times> int \<times> event \<Rightarrow> bool" where
  "allowed s (sid, now, Join_room (Some d)) =
     (join_succeeds s d \<longrightarrow>
        userSockets s sid = None \<and> trim (the_string (jp_room d)) = the_string (jp_room d))"
| "allowed s e = True"

fun disciplined :: "state \<Rightarrow> (socketId \<times> int \<times> event) list \<Rightarrow> bool" where
  "disciplined s [] = True"
| "disciplined s (e # es) = (allowed s e \<and> disciplined (fst (handle s e)) es)"

text \<open>\<open>closed es\<close>: the sockets that disconnect in \<open>es\<close>.\<close>

fun closed :: "(socketId \<times> int \<times> event) list \<Rightarrow> socketId set" where
  "closed [] = {}"
| "closed ((sid, now, e) # es) = (if e = Disconnect then insert sid (closed es) else closed es)"

text \<open>
  Invariants. \<open>sio_within\<close>: whoever is in a socket.io room has a member entry in the
  registry room of the same name, or is the socket whose id is the name of the room.
  \<open>sio_live D\<close>: a socket with a member entry in a registry room is in the socket.io
  room of that name, the sockets \<open>D\<close> apart. \<open>registry_inv\<close>: room keys are unique;
  within a room no socket has two member entries; every member entry is matched by the
  binding of its socket (same room, same user name); every binding is matched by a member
  entry in the room it names.
\<close>

definition sio_within :: "state \<Rightarrow> bool" where
  "sio_within s \<longleftrightarrow>
     (\<forall>r. sio_rooms s r \<subseteq> insert r (m_socketId ` set (getRoomUsers s r)))"

definition sio_live :: "socketId set \<Rightarrow> state \<Rightarrow> bool" where
  "sio_live D s \<longleftrightarrow> (\<forall>r. m_socketId ` set (getRoomUsers s r) - D \<subseteq> sio_rooms s r)"

definition registry_inv :: "state \<Rightarrow> bool" where
  "registry_inv s \<longleftrightarrow>
     distinct (map fst (rooms s)) \<and>
     (\<forall>r. distinct (map m_socketId (getRoomUsers s r)) \<and>
          (\<forall>m \<in> set (getRoomUsers s r).
             userSockets s (m_socketId m) = Some \<lparr>ud_room = r, ud_username = m_username m\<rparr>)) \<and>
     (\<forall>c ud. userSockets s c = Some ud \<longrightarrow>
          c \<in> m_socketId ` set (getRoomUsers s (ud_room ud)))"

text \<open>
  Concrete sockets, payloads and event sequences for the examples. Socket ids of
  socket.io have 20 characters.
\<close>

definition sock1 :: socketId where "sock1 = ''Vr3bJmvjq5uoNhZGAAAB''"
definition sock2 :: socketId where "sock2 = ''Vr3bJmvjq5uoNhZGAAAD''"
definition sock3 :: socketId where "sock3 = ''Vr3bJmvjq5uoNhZGAAAF''"

definition hello :: message_payload where
  "hello = \<lparr>mp_room = JString ''lobby'', mp_author = JString ''alice'',
            mp_message = JString ''hi''\<rparr>"

definition join :: "string \<Rightarrow> string \<Rightarrow> event" where
  "join room username = Join_room (Some \<lparr>jp_room = JString room, jp_username = JString username\<rparr>)"

definition ten_sends :: "(socketId \<times> int \<times> event) list" where
  "ten_sends = (sock1, 0, Connect) # replicate 10 (sock1, 0, Send_message (Some hello))"

definition rejoin_sends :: "(socketId \<times> int \<times> event) list" where
  "rejoin_sends =
     [(sock1, 0, Connect), (sock1, 0, join ''lobby'' ''alice'')] @
     replicate 10 (sock1, 0, Send_message (Some hello)) @
     [(sock1, 0, Leave_room), (sock1, 0, join ''lobby'' ''alice'')]"

definition eleven_sends :: "(socketId \<times> int \<times> event) list" where
  "eleven_sends =
     [(sock1, 0, Connect), (sock2, 0, Connect), (sock1, 0, join ''lobby'' ''alice'')] @
     map (\<lambda>t. (sock1, t, Send_message (Some hello)))
       [0, 500, 1000, 1500, 2000, 2500, 3000, 3500, 4000, 4500] @
     [(sock2, 4600, Leave_room), (sock1, 4999, Send_message (Some hello))]"

section \<open>Properties\<close>

lemmas consts_defs =
  MAX_USERNAME_LENGTH_def MIN_USERNAME_LENGTH_def MAX_ROOM_LENGTH_def MIN_ROOM_LENGTH_def
  MAX_MESSAGE_LENGTH_def MESSAGE_RATE_LIMIT_def RATE_LIMIT_WINDOW_def

lemmas eval_defs =
  consts_defs trim_def is_space_def lower_char_def toLowerCase_def
  checkRateLimit_def getRoomUsers_def userExistsInRoom_def addUserToRoom_def
  removeUserFromRoom_def socket_join_def socket_leave_def socket_leaveAll_def
  socket_emit_def io_to_emit_def socket_to_emit_def connection_def join_room_def
  send_message_def typing_def leave_room_def disconnect_def init_state_def received_def
  api_rooms_def hello_def ten_sends_def rejoin_sends_def eleven_sends_def join_def
  join_succeeds_def stored_def in_window_def Let_def char_of_eq_iff

lemmas sock_defs = sock1_def sock2_def sock3_def

lemma socks_distinct:
  "sock1 \<noteq> sock2" "sock2 \<noteq> sock1" "sock1 \<noteq> sock3" "sock3 \<noteq> sock1"
  "sock2 \<noteq> sock3" "sock3 \<noteq> sock2"
  by (simp_all add: sock_defs)

lemma socks_not_lobby:
  "sock1 \<noteq> ''lobby''" "sock2 \<noteq> ''lobby''" "sock3 \<noteq> ''lobby''"
  "''lobby'' \<noteq> sock1" "''lobby'' \<noteq> sock2" "''lobby'' \<noteq> sock3"
  by (simp_all add: sock_defs)

subsection \<open>Validation\<close>

lemma validateUsername_iff:
  "validateUsername (JString u) \<longleftrightarrow> length (trim u) \<in> {2..20}"
  by (auto simp: consts_defs trim_def)

lemma validateRoom_iff:
  "validateRoom (JString r) \<longleftrightarrow> length (trim r) \<in> {2..20}"
  by (auto simp: consts_defs trim_def)

lemma hello_valid:
  "validateRoom (mp_room hello)" "validateUsername (mp_author hello)"
  "validateMessage (mp_message hello)"
  by (simp_all add: eval_defs)

text \<open>
  \<^bold>\<open>C6.\<close> A \<open>join_room\<close> request whose username or room has a trimmed length outside
  \<open>2 .. 20\<close> leaves the whole state as it was (no room, no member, no binding), and the
  only event sent is one error of the invalid-input kind, to the requesting socket; no
  other socket receives anything.
\<close>

theorem join_room_invalid_input:
  assumes "(\<exists>u. jp_username d = JString u \<and> length (trim u) \<notin> {2..20}) \<or>
           (\<exists>r. jp_room d = JString r \<and> length (trim r) \<notin> {2..20})"
  shows "fst (join_room sid now (Some d) s) = s \<and>
         snd (join_room sid now (Some d) s) \<in>
           {[Emit {sid} (Error ''Invalid username. Use 2-20 characters.'')],
            [Emit {sid} (Error ''Invalid room ID. Use 2-20 characters.'')]} \<and>
         (\<forall>c. c \<noteq> sid \<longrightarrow> received (snd (join_room sid now (Some d) s)) c = [])"
proof -
  have "\<not> validateUsername (jp_username d) \<or> \<not> validateRoom (jp_room d)"
    using assms
    by (auto simp: validateUsername_iff validateRoom_iff
          simp del: validateUsername.simps validateRoom.simps)
  then show ?thesis
    by (auto simp: join_room_def socket_emit_def received_def)
qed

theorem join_room_invalid_input_witness:
  "fst (join_room sock1 0 (Some \<lparr>jp_room = JString ''lobby'', jp_username = JString ''a''\<rparr>)
          init_state) = init_state \<and>
   snd (join_room sock1 0 (Some \<lparr>jp_room = JString ''lobby'', jp_username = JString ''a''\<rparr>)
          init_state) = [Emit {sock1} (Error ''Invalid username. Use 2-20 characters.'')] \<and>
   received (snd (join_room sock1 0
      (Some \<lparr>jp_room = JString ''lobby'', jp_username = JString ''a''\<rparr>) init_state)) sock2 = [] \<and>
   join_room sock1 0 (Some \<lparr>jp_room = JString ''aaaaaaaaaaaaaaaaaaaaa'',
                             jp_username = JString ''alice''\<rparr>) init_state
     = (init_state, [Emit {sock1} (Error ''Invalid room ID. Use 2-20 characters.'')])"
proof -
  let ?short = "\<lparr>jp_room = JString ''lobby'', jp_username = JString ''a''\<rparr>"
  let ?long = "\<lparr>jp_room = JString ''aaaaaaaaaaaaaaaaaaaaa'', jp_username = JString ''alice''\<rparr>"
  have a: "(\<exists>u. jp_username ?short = JString u \<and> length (trim u) \<notin> {2..20}) \<or>
           (\<exists>r. jp_room ?short = JString r \<and> length (trim r) \<notin> {2..20})"
    by (simp add: trim_def is_space_def)
  have b: "(\<exists>u. jp_username ?long = JString u \<and> length (trim u) \<notin> {2..20}) \<or>
           (\<exists>r. jp_room ?long = JString r \<and> length (trim r) \<notin> {2..20})"
    by (simp add: trim_def is_space_def)
  note short = join_room_invalid_input [OF a, of sock1 0 init_state]
  note long = join_room_invalid_input [OF b, of sock1 0 init_state]
  have c: "snd (join_room sock1 0 (Some ?short) init_state)
             = [Emit {sock1} (Error ''Invalid username. Use 2-20 characters.'')]"
    by (simp add: eval_defs)
  have e: "snd (join_room sock1 0 (Some ?long) init_state)
             = [Emit {sock1} (Error ''Invalid room ID. Use 2-20 characters.'')]"
    by (simp add: eval_defs)
  from short have "fst (join_room sock1 0 (Some ?short) init_state) = init_state"
    by blast
  moreover from short have "sock2 \<noteq> sock1 \<longrightarrow>
      received (snd (join_room sock1 0 (Some ?short) init_state)) sock2 = []"
    by blast
  moreover from long have "fst (join_room sock1 0 (Some ?long) init_state) = init_state"
    by blast
  ultimately show ?thesis
    using c e socks_distinct by (simp add: prod_eq_iff)
qed

subsection \<open>The rate limiter\<close>

lemma checkRateLimit_frame:
  "rooms (snd (checkRateLimit sid now s)) = rooms s"
  "userSockets (snd (checkRateLimit sid now s)) = userSockets s"
  "sio_rooms (snd (checkRateLimit sid now s)) = sio_rooms s"
  "c \<noteq> sid \<Longrightarrow> messageLimiter (snd (checkRateLimit sid now s)) c = messageLimiter s c"
  by (simp_all add: checkRateLimit_def Let_def)

lemma checkRateLimit_True:
  "fst (checkRateLimit sid now s) \<Longrightarrow>
     messageLimiter (snd (checkRateLimit sid now s)) sid =
       Some (filter (\<lambda>t. now - t < 5000) (stored s sid) @ [now])"
  by (simp add: checkRateLimit_def Let_def stored_def RATE_LIMIT_WINDOW_def split: if_splits)

lemma checkRateLimit_False:
  "\<not> fst (checkRateLimit sid now s) \<Longrightarrow> snd (checkRateLimit sid now s) = s"
  by (simp add: checkRateLimit_def Let_def split: if_splits)

lemma checkRateLimit_fst:
  "fst (checkRateLimit sid now s) \<longleftrightarrow>
     length (filter (\<lambda>t. now - t < 5000) (stored s sid)) < 10"
  by (auto simp add: checkRateLimit_def Let_def stored_def consts_defs split: if_splits)

lemma stored_init: "stored init_state c = []"
  by (simp add: stored_def init_state_def)

lemma stored_length:
  "fst (checkRateLimit sid t s) \<Longrightarrow> length (stored (snd (checkRateLimit sid t s)) sid) \<le> 10"
  using checkRateLimit_True [of sid t s] by (simp add: stored_def checkRateLimit_fst)

lemma send_message_state:
  "fst (send_message sid now data s) = snd (checkRateLimit sid now s)"
  by (cases "checkRateLimit sid now s")
     (auto simp: send_message_def Let_def split: option.splits bool.splits)

lemma send_message_limited:
  "\<not> fst (checkRateLimit sid now s) \<Longrightarrow>
     send_message sid now data s =
       (s, [Emit {sid} (Error ''Too many messages. Please slow down.'')])"
  using checkRateLimit_False [of sid now s]
  by (cases "checkRateLimit sid now s") (auto simp: send_message_def socket_emit_def)

lemma send_message_mismatch:
  assumes "fst (checkRateLimit sid now s)"
    and "validateRoom (mp_room d)" "validateUsername (mp_author d)"
      "validateMessage (mp_message d)"
    and "userSockets s sid \<noteq>
           Some \<lparr>ud_room = the_string (mp_room d), ud_username = the_string (mp_author d)\<rparr>"
  shows "snd (send_message sid now (Some d) s) = [Emit {sid} (Error ''Unauthorized message'')]"
  using assms checkRateLimit_frame(2) [of sid now s]
  by (cases "checkRateLimit sid now s")
     (auto simp: send_message_def socket_emit_def Let_def split: option.splits)

text \<open>
  Attempts that all lie within 5000 ms of each other and of what is already recorded:
  the limiter lets through as many as fit under the cap of ten, and no more.
\<close>

lemma admitted_close:
  assumes "\<forall>t\<in>set (stored s sid) \<union> set ts. \<forall>t'\<in>set (stored s sid) \<union> set ts. t - t' < 5000"
  shows "admitted sid s ts = take (10 - length (stored s sid)) ts"
  using assms
proof (induction ts arbitrary: s)
  case Nil
  then show ?case by simp
next
  case (Cons t ts)
  have keep: "filter (\<lambda>x. t - x < 5000) (stored s sid) = stored s sid"
    using Cons.prems by (auto simp: filter_id_conv)
  show ?case
  proof (cases "fst (checkRateLimit sid t s)")
    case True
    then have len: "length (stored s sid) < 10"
      by (simp add: checkRateLimit_fst keep)
    let ?s' = "snd (checkRateLimit sid t s)"
    have st: "stored ?s' sid = stored s sid @ [t]"
      using checkRateLimit_True [OF True] keep by (simp add: stored_def)
    have "admitted sid ?s' ts = take (10 - length (stored ?s' sid)) ts"
      by (rule Cons.IH) (use Cons.prems st in auto)
    with True len st show ?thesis
      by (cases "checkRateLimit sid t s") (auto simp: take_Cons')
  next
    case False
    then have len: "10 \<le> length (stored s sid)"
      by (simp add: checkRateLimit_fst keep)
    have same: "snd (checkRateLimit sid t s) = s"
      by (rule checkRateLimit_False [OF False])
    have "admitted sid s ts = take (10 - length (stored s sid)) ts"
      by (rule Cons.IH) (use Cons.prems in auto)
    with False len same show ?thesis
      by (cases "checkRateLimit sid t s") auto
  qed
qed

lemma admitted_ge:
  "\<forall>x\<in>set ts. t \<le> x \<Longrightarrow> \<forall>x\<in>set (admitted sid s ts). t \<le> x"
  by (induction ts arbitrary: s) (auto split: prod.splits if_splits)

text \<open>
  With a clock that does not run backwards, what is recorded together with what is let
  through later never has more than ten time stamps in any window of 5000 ms.
\<close>

lemma admitted_window:
  assumes "sorted ts" and "length (stored s sid) \<le> 10"
  shows "length (filter (in_window T) (stored s sid @ admitted sid s ts)) \<le> 10"
  using assms
proof (induction ts arbitrary: s)
  case Nil
  have "length (filter (in_window T) (stored s sid)) \<le> length (stored s sid)"
    by (rule length_filter_le)
  with Nil.prems(2) show ?case
    by (simp only: admitted.simps append_Nil2 le_trans)
next
  case (Cons t ts)
  show ?case
  proof (cases "fst (checkRateLimit sid t s)")
    case False
    have same: "snd (checkRateLimit sid t s) = s"
      by (rule checkRateLimit_False [OF False])
    have "length (filter (in_window T) (stored s sid @ admitted sid s ts)) \<le> 10"
      by (rule Cons.IH) (use Cons.prems in auto)
    with False same show ?thesis
      by (cases "checkRateLimit sid t s") auto
  next
    case True
    let ?s' = "snd (checkRateLimit sid t s)"
    have st: "stored ?s' sid = filter (\<lambda>x. t - x < 5000) (stored s sid) @ [t]"
      using checkRateLimit_True [OF True] by (simp add: stored_def)
    have adm: "admitted sid s (t # ts) = t # admitted sid ?s' ts"
      using True by (cases "checkRateLimit sid t s") auto
    have ih: "length (filter (in_window T) (stored ?s' sid @ admitted sid ?s' ts)) \<le> 10"
      by (rule Cons.IH) (use Cons.prems stored_length [OF True] in auto)
    show ?thesis
    proof (cases "t \<le> T")
      case True
      have "filter (in_window T) (stored s sid)
              = filter (in_window T) (filter (\<lambda>x. t - x < 5000) (stored s sid))"
        using True by (auto simp: in_window_def intro!: filter_cong)
      with ih show ?thesis
        by (simp add: adm st del: admitted.simps)
    next
      case False
      have "\<forall>x\<in>set (admitted sid ?s' ts). t \<le> x"
        by (rule admitted_ge) (use Cons.prems in auto)
      then have "filter (in_window T) (t # admitted sid ?s' ts) = []"
        using False by (auto simp: in_window_def filter_empty_conv)
      moreover have "length (filter (in_window T) (stored s sid)) \<le> 10"
        by (rule le_trans [OF length_filter_le Cons.prems(2)])
      ultimately show ?thesis
        by (simp add: adm del: admitted.simps)
    qed
  qed
qed

lemma ten_sends_state:
  "run init_state ten_sends =
     init_state\<lparr>messageLimiter := [sock1 \<mapsto> replicate 10 0],
                sio_rooms := (\<lambda>r. {})(sock1 := {sock1})\<rparr>"
  by (simp add: eval_defs eval_nat_numeral)

text \<open>
  \<^bold>\<open>C10.\<close> A \<open>send_message\<close> that passes the rate limiter and is then rejected (the
  payload cannot be read, room, author or message fail validation, or the pair of room
  and author is not the binding of the socket) changes neither \<open>rooms\<close> nor
  \<open>userSockets\<close>, sends one error to the sender, and still records the attempt: the
  window of the sender becomes the kept time stamps followed by \<open>now\<close>. In particular a
  socket that never joined a room and had no limiter entry gets the entry \<open>[now]\<close>.
\<close>

theorem send_message_rejected_consumes_budget:
  assumes "fst (checkRateLimit sid now s)"
    and "data = None \<or>
         (\<exists>d. data = Some d \<and>
            (\<not> validateRoom (mp_room d) \<or> \<not> validateUsername (mp_author d) \<or>
             \<not> validateMessage (mp_message d) \<or>
             userSockets s sid \<noteq>
               Some \<lparr>ud_room = the_string (mp_room d), ud_username = the_string (mp_author d)\<rparr>))"
  shows "rooms (fst (send_message sid now data s)) = rooms s \<and>
         userSockets (fst (send_message sid now data s)) = userSockets s \<and>
         messageLimiter (fst (send_message sid now data s)) sid =
           Some (filter (\<lambda>t. now - t < 5000) (stored s sid) @ [now]) \<and>
         (\<exists>msg. snd (send_message sid now data s) = [Emit {sid} (Error msg)]) \<and>
         (userSockets s sid = None \<and> messageLimiter s sid = None \<longrightarrow>
            messageLimiter (fst (send_message sid now data s)) sid = Some [now])"
proof -
  have win: "messageLimiter (fst (send_message sid now data s)) sid =
           Some (filter (\<lambda>t. now - t < 5000) (stored s sid) @ [now])"
    using checkRateLimit_True [OF assms(1)] by (simp add: send_message_state)
  have out: "\<exists>msg. snd (send_message sid now data s) = [Emit {sid} (Error msg)]"
    using assms checkRateLimit_frame(2) [of sid now s]
    by (cases "checkRateLimit sid now s")
       (auto simp: send_message_def socket_emit_def Let_def split: option.splits)
  show ?thesis
    using win out by (simp add: send_message_state checkRateLimit_frame stored_def)
qed

theorem send_message_rejected_consumes_budget_witness:
  "rooms (fst (send_message sock1 7 (Some hello) init_state)) = [] \<and>
   userSockets (fst (send_message sock1 7 (Some hello) init_state)) sock1 = None \<and>
   messageLimiter (fst (send_message sock1 7 (Some hello) init_state)) sock1 = Some [7] \<and>
   snd (send_message sock1 7 (Some hello) init_state)
     = [Emit {sock1} (Error ''Unauthorized message'')]"
proof -
  have a: "fst (checkRateLimit sock1 7 init_state)"
    by (simp add: checkRateLimit_fst stored_init)
  have b: "userSockets init_state sock1 = None" "messageLimiter init_state sock1 = None"
    "rooms init_state = []"
    by (simp_all add: init_state_def)
  have c: "snd (send_message sock1 7 (Some hello) init_state)
             = [Emit {sock1} (Error ''Unauthorized message'')]"
    by (rule send_message_mismatch [OF a hello_valid]) (simp add: b)
  show ?thesis
    using send_message_rejected_consumes_budget [of sock1 7 init_state "Some hello"] a b c
    by (simp add: stored_init)
qed

text \<open>
  \<^bold>\<open>C4\<close>, as stated, promises the unauthorized error for every well-formed
  \<open>send_message\<close> whose room and author are not the binding of the socket. The handler
  asks the rate limiter first: after ten attempts at time 0, an eleventh well-formed
  message from the unbound socket is answered with the rate-limit error instead.
\<close>

theorem unauthorized_hidden_by_rate_limit:
  "validateRoom (mp_room hello) \<and> validateUsername (mp_author hello) \<and>
   validateMessage (mp_message hello) \<and>
   userSockets (run init_state ten_sends) sock1 = None \<and>
   snd (send_message sock1 0 (Some hello) (run init_state ten_sends))
     = [Emit {sock1} (Error ''Too many messages. Please slow down.'')]"
  unfolding ten_sends_state by (simp add: hello_valid) (simp add: eval_defs)

text \<open>
  \<^bold>\<open>C4\<close>, amended. For a \<open>send_message\<close> whose payload passes validation but whose room
  and author are not the binding of the socket (other room, other author, or no binding):
  exactly one error is sent, to the sender only, and it is the unauthorized error when the
  attempt passes the rate limiter and the rate-limit error when it does not; no socket
  receives a \<open>receive_message\<close> event.
\<close>

theorem send_message_binding_mismatch:
  assumes "validateRoom (mp_room d)" and "validateUsername (mp_author d)"
    and "validateMessage (mp_message d)"
    and "userSockets s sid \<noteq>
           Some \<lparr>ud_room = the_string (mp_room d), ud_username = the_string (mp_author d)\<rparr>"
  shows "snd (send_message sid now (Some d) s) =
           [Emit {sid} (Error (if fst (checkRateLimit sid now s) then ''Unauthorized message''
                               else ''Too many messages. Please slow down.''))] \<and>
         (\<forall>c. c \<noteq> sid \<longrightarrow> received (snd (send_message sid now (Some d) s)) c = []) \<and>
         (\<forall>c m. ReceiveMessage m \<notin> set (received (snd (send_message sid now (Some d) s)) c))"
proof -
  have "snd (send_message sid now (Some d) s) =
           [Emit {sid} (Error (if fst (checkRateLimit sid now s) then ''Unauthorized message''
                               else ''Too many messages. Please slow down.''))]"
    using assms send_message_mismatch [of sid now s d] send_message_limited [of sid now s "Some d"]
    by (cases "fst (checkRateLimit sid now s)") simp_all
  then show ?thesis
    by (simp add: received_def)
qed

theorem send_message_binding_mismatch_witness:
  "snd (send_message sock1 7 (Some hello) init_state)
     = [Emit {sock1} (Error ''Unauthorized message'')] \<and>
   received (snd (send_message sock1 7 (Some hello) init_state)) sock2 = [] \<and>
   snd (send_message sock1 0 (Some hello) (run init_state ten_sends))
     = [Emit {sock1} (Error ''Too many messages. Please slow down.'')]"
proof -
  have a: "fst (checkRateLimit sock1 7 init_state)"
    by (simp add: checkRateLimit_fst stored_init)
  have b: "userSockets init_state sock1 \<noteq>
      Some \<lparr>ud_room = the_string (mp_room hello), ud_username = the_string (mp_author hello)\<rparr>"
    by (simp add: init_state_def)
  have c: "userSockets (run init_state ten_sends) sock1 \<noteq>
      Some \<lparr>ud_room = the_string (mp_room hello), ud_username = the_string (mp_author hello)\<rparr>"
    unfolding ten_sends_state by (simp add: init_state_def)
  have d: "\<not> fst (checkRateLimit sock1 0 (run init_state ten_sends))"
    unfolding ten_sends_state by (simp add: checkRateLimit_fst stored_def)
  note first = send_message_binding_mismatch [OF hello_valid b, of 7]
  note last = send_message_binding_mismatch [OF hello_valid c, of 0]
  from first a have "snd (send_message sock1 7 (Some hello) init_state)
      = [Emit {sock1} (Error ''Unauthorized message'')]"
    by simp
  moreover from first have "sock2 \<noteq> sock1 \<longrightarrow>
      received (snd (send_message sock1 7 (Some hello) init_state)) sock2 = []"
    by blast
  moreover from last d have "snd (send_message sock1 0 (Some hello) (run init_state ten_sends))
     = [Emit {sock1} (Error ''Too many messages. Please slow down.'')]"
    by simp
  ultimately show ?thesis
    using socks_distinct by simp
qed

subsection \<open>The registry under the two mutators\<close>

lemma getRoomUsers_addUserToRoom:
  "getRoomUsers (addUserToRoom room u c now s) r =
     (if r = room
      then (if c \<in> m_socketId ` set (getRoomUsers s room) then getRoomUsers s room
            else getRoomUsers s room @
                   [\<lparr>m_username = trim u, m_socketId = c, m_joinedAt = now\<rparr>])
      else getRoomUsers s r)"
  by (auto simp: addUserToRoom_def getRoomUsers_def Let_def update_conv' find_None_iff
           split: option.splits)

lemma userSockets_addUserToRoom:
  "userSockets (addUserToRoom room u c now s) =
     (userSockets s)(c \<mapsto> \<lparr>ud_room = trim room, ud_username = trim u\<rparr>)"
  by (simp add: addUserToRoom_def Let_def)

lemma frame_addUserToRoom:
  "sio_rooms (addUserToRoom room u c now s) = sio_rooms s"
  "messageLimiter (addUserToRoom room u c now s) = messageLimiter s"
  by (simp_all add: addUserToRoom_def Let_def)

lemma distinct_addUserToRoom:
  "distinct (map fst (rooms s)) \<Longrightarrow> distinct (map fst (rooms (addUserToRoom room u c now s)))"
  by (simp add: addUserToRoom_def Let_def distinct_update)

lemma fst_removeUserFromRoom:
  "fst (removeUserFromRoom c s) = userSockets s c"
  by (simp add: removeUserFromRoom_def Let_def split: option.splits)

lemma getRoomUsers_removeUserFromRoom:
  "getRoomUsers (snd (removeUserFromRoom c s)) r =
     (case userSockets s c of
        None \<Rightarrow> getRoomUsers s r
      | Some ud \<Rightarrow>
          if r = ud_room ud then filter (\<lambda>u. m_socketId u \<noteq> c) (getRoomUsers s r)
          else getRoomUsers s r)"
  by (auto simp: removeUserFromRoom_def getRoomUsers_def Let_def update_conv' delete_conv'
           split: option.splits)

lemma userSockets_removeUserFromRoom:
  "userSockets (snd (removeUserFromRoom c s)) = (userSockets s)(c := None)"
  by (auto simp: removeUserFromRoom_def Let_def split: option.splits)

lemma sio_rooms_removeUserFromRoom:
  "sio_rooms (snd (removeUserFromRoom c s)) = sio_rooms s"
  by (simp add: removeUserFromRoom_def Let_def split: option.splits)

lemma distinct_removeUserFromRoom:
  "distinct (map fst (rooms s)) \<Longrightarrow> distinct (map fst (rooms (snd (removeUserFromRoom c s))))"
  by (simp add: removeUserFromRoom_def Let_def distinct_update distinct_delete
           split: option.splits)

lemma map_of_removeUserFromRoom_last:
  assumes "userSockets s c = Some ud"
    and "m_socketId ` set (getRoomUsers s (ud_room ud)) \<subseteq> {c}"
  shows "map_of (rooms (snd (removeUserFromRoom c s))) (ud_room ud) = None"
proof (cases "map_of (rooms s) (ud_room ud)")
  case None
  with assms(1) show ?thesis
    by (simp add: removeUserFromRoom_def Let_def)
next
  case (Some us)
  with assms(2) have "filter (\<lambda>u. m_socketId u \<noteq> c) us = []"
    by (auto simp: getRoomUsers_def filter_empty_conv)
  with Some assms(1) show ?thesis
    by (simp add: removeUserFromRoom_def Let_def delete_conv')
qed

lemma getRoomUsers_socket:
  "getRoomUsers (socket_join c r s) = getRoomUsers s"
  "getRoomUsers (socket_leave c r s) = getRoomUsers s"
  "getRoomUsers (socket_leaveAll c s) = getRoomUsers s"
  by (simp_all add: fun_eq_iff getRoomUsers_def socket_join_def socket_leave_def
        socket_leaveAll_def)

lemma userSockets_socket:
  "userSockets (socket_join c r s) = userSockets s"
  "userSockets (socket_leave c r s) = userSockets s"
  "userSockets (socket_leaveAll c s) = userSockets s"
  by (simp_all add: socket_join_def socket_leave_def socket_leaveAll_def)

lemma rooms_socket:
  "rooms (socket_join c r s) = rooms s"
  "rooms (socket_leave c r s) = rooms s"
  "rooms (socket_leaveAll c s) = rooms s"
  by (simp_all add: socket_join_def socket_leave_def socket_leaveAll_def)

lemma sio_rooms_socket:
  "sio_rooms (socket_join c r s) r' = (if r' = r then insert c (sio_rooms s r) else sio_rooms s r')"
  "sio_rooms (socket_leave c r s) r' = (if r' = r then sio_rooms s r - {c} else sio_rooms s r')"
  "sio_rooms (socket_leaveAll c s) r' = sio_rooms s r' - {c}"
  by (simp_all add: socket_join_def socket_leave_def socket_leaveAll_def)

subsection \<open>What each handler does to the state\<close>

lemma connection_state: "fst (connection sid s) = socket_join sid sid s"
  by (simp add: connection_def)

lemma join_room_state:
  "fst (join_room sid now data s) =
     (case data of
        None \<Rightarrow> s
      | Some d \<Rightarrow>
          if join_succeeds s d
          then addUserToRoom (the_string (jp_room d)) (the_string (jp_username d)) sid now
                 (socket_join sid (the_string (jp_room d)) s)
          else s)"
  by (auto simp: join_room_def join_succeeds_def Let_def split: option.splits)

lemma typing_state: "fst (typing sid data s) = s"
  by (auto simp: typing_def Let_def split: option.splits)

lemma leave_room_state:
  "fst (leave_room sid now s) =
     (case userSockets s sid of
        None \<Rightarrow> s
      | Some ud \<Rightarrow> snd (removeUserFromRoom sid (socket_leave sid (ud_room ud) s)))"
  by (auto simp: leave_room_def Let_def split: option.splits)

lemma disconnect_state:
  "fst (disconnect sid now s) = snd (removeUserFromRoom sid (socket_leaveAll sid s))"
  by (cases "removeUserFromRoom sid (socket_leaveAll sid s)")
     (auto simp: disconnect_def Let_def split: option.splits)

lemma run_invariant:
  assumes "P s" and "\<And>s e. P s \<Longrightarrow> P (fst (handle s e))"
  shows "P (run s es)"
  using assms(1) by (induction es arbitrary: s) (auto intro: assms(2))

lemma api_rooms_keys: "fst ` set (api_rooms s) = fst ` set (rooms s)"
  by (force simp: api_rooms_def)

subsection \<open>The rate limiter along event sequences\<close>

lemma checkRateLimit_stored_cong:
  assumes "stored s sid = stored s' sid"
  shows "fst (checkRateLimit sid t s) = fst (checkRateLimit sid t s')"
    and "stored (snd (checkRateLimit sid t s)) sid = stored (snd (checkRateLimit sid t s')) sid"
proof -
  show f: "fst (checkRateLimit sid t s) = fst (checkRateLimit sid t s')"
    by (simp add: checkRateLimit_fst assms)
  show "stored (snd (checkRateLimit sid t s)) sid = stored (snd (checkRateLimit sid t s')) sid"
  proof (cases "fst (checkRateLimit sid t s)")
    case True
    with f have "fst (checkRateLimit sid t s')" by simp
    with True show ?thesis
      using checkRateLimit_True [of sid t s] checkRateLimit_True [of sid t s'] assms
      by (simp add: stored_def)
  next
    case False
    with f have "\<not> fst (checkRateLimit sid t s')" by simp
    with False show ?thesis
      using checkRateLimit_False [of sid t s] checkRateLimit_False [of sid t s'] assms
      by simp
  qed
qed

lemma admitted_cong:
  "stored s sid = stored s' sid \<Longrightarrow> admitted sid s ts = admitted sid s' ts"
proof (induction ts arbitrary: s s')
  case Nil
  then show ?case by simp
next
  case (Cons t ts)
  have "admitted sid (snd (checkRateLimit sid t s)) ts
          = admitted sid (snd (checkRateLimit sid t s')) ts"
    by (rule Cons.IH) (rule checkRateLimit_stored_cong(2) [OF Cons.prems])
  with checkRateLimit_stored_cong(1) [OF Cons.prems, of t] show ?case
    by (cases "checkRateLimit sid t s"; cases "checkRateLimit sid t s'") auto
qed

lemma messageLimiter_removeUserFromRoom:
  "messageLimiter (snd (removeUserFromRoom c s)) =
     (case userSockets s c of None \<Rightarrow> messageLimiter s
      | Some ud \<Rightarrow> (messageLimiter s)(c := None))"
  by (simp add: removeUserFromRoom_def Let_def split: option.splits)

lemma messageLimiter_socket:
  "messageLimiter (socket_join c r s) = messageLimiter s"
  "messageLimiter (socket_leave c r s) = messageLimiter s"
  "messageLimiter (socket_leaveAll c s) = messageLimiter s"
  by (simp_all add: socket_join_def socket_leave_def socket_leaveAll_def)

lemma stored_handle_kept:
  assumes "c = sid \<and> (ev = Leave_room \<or> ev = Disconnect) \<longrightarrow> userSockets s sid = None"
    and "\<not> (c = sid \<and> (\<exists>data. ev = Send_message data))"
  shows "stored (fst (handle s (c, now, ev))) sid = stored s sid"
proof (cases ev)
  case Connect
  then show ?thesis
    by (simp add: stored_def connection_state messageLimiter_socket)
next
  case (Join_room data)
  then show ?thesis
    by (simp add: stored_def join_room_state frame_addUserToRoom messageLimiter_socket
          split: option.splits)
next
  case (Send_message data)
  with assms(2) have "c \<noteq> sid" by simp
  with Send_message show ?thesis
    by (simp add: stored_def send_message_state checkRateLimit_frame)
next
  case (Typing data)
  then show ?thesis
    by (simp add: typing_state)
next
  case Leave_room
  with assms(1) show ?thesis
    by (auto simp: stored_def leave_room_state messageLimiter_removeUserFromRoom
          messageLimiter_socket userSockets_socket split: option.splits)
next
  case Disconnect
  with assms(1) show ?thesis
    by (auto simp: stored_def disconnect_state messageLimiter_removeUserFromRoom
          messageLimiter_socket userSockets_socket split: option.splits)
qed

lemma passed_admitted:
  "window_kept sid s es \<Longrightarrow> passed sid s es = admitted sid s (send_times sid es)"
proof (induction es arbitrary: s)
  case Nil
  then show ?case by simp
next
  case (Cons e es)
  obtain c now ev where e: "e = (c, now, ev)"
    by (cases e) auto
  let ?s = "fst (handle s e)"
  have kept: "window_kept sid ?s es"
    and quiet: "c = sid \<and> (ev = Leave_room \<or> ev = Disconnect) \<longrightarrow> userSockets s sid = None"
    using Cons.prems by (simp_all add: e)
  have ih: "passed sid ?s es = admitted sid ?s (send_times sid es)"
    by (rule Cons.IH [OF kept])
  show ?case
  proof (cases "c = sid \<and> (\<exists>data. ev = Send_message data)")
    case True
    then obtain data where ev: "ev = Send_message data" and c: "c = sid"
      by blast
    have "?s = snd (checkRateLimit sid now s)"
      by (simp add: e ev c send_message_state)
    with ih show ?thesis
      by (cases "checkRateLimit sid now s") (auto simp: e ev c)
  next
    case False
    have same: "stored ?s sid = stored s sid"
      unfolding e by (rule stored_handle_kept [OF quiet False])
    have times: "send_times sid (e # es) = send_times sid es"
      using False by (cases ev) (auto simp: e)
    have "passed sid s (e # es) = passed sid ?s es"
      using False by (cases ev) (auto simp: e)
    also have "\<dots> = admitted sid s (send_times sid es)"
      using ih admitted_cong [OF same] by simp
    finally show ?thesis
      by (simp only: times)
  qed
qed

text \<open>
  \<^bold>\<open>C5\<close>, as stated, fails in two ways. \<open>removeUserFromRoom\<close> deletes the window of a
  socket that leaves its room: after ten messages at time 0, \<open>leave_room\<close> and a new
  \<open>join_room\<close>, the eleventh message, at time 1, is delivered to the room. And a check
  drops the stamps that are exactly 5000 ms old with the older ones: ten messages at time
  0 are followed by an eleventh at time 5000, which is let through.
\<close>

theorem rate_limit_reset_and_boundary:
  "snd (handle (run init_state rejoin_sends) (sock1, 1, Send_message (Some hello)))
     = [Emit {sock1} (ReceiveMessage (UserMessage ''lobby'' ''alice'' ''hi'' 1 (sock1, 1)))] \<and>
   fst (checkRateLimit sock1 5000 (run init_state ten_sends)) \<and>
   stored (snd (checkRateLimit sock1 5000 (run init_state ten_sends))) sock1 = [5000]"
proof -
  have "snd (handle (run init_state rejoin_sends) (sock1, 1, Send_message (Some hello)))
     = [Emit {sock1} (ReceiveMessage (UserMessage ''lobby'' ''alice'' ''hi'' 1 (sock1, 1)))]"
    by (simp add: eval_defs socks_not_lobby eval_nat_numeral)
  moreover have "fst (checkRateLimit sock1 5000 (run init_state ten_sends))"
    unfolding ten_sends_state by (simp add: checkRateLimit_fst stored_def)
  moreover have "stored (snd (checkRateLimit sock1 5000 (run init_state ten_sends))) sock1 = [5000]"
    unfolding ten_sends_state by (simp add: eval_defs)
  ultimately show ?thesis
    by simp
qed

text \<open>
  \<^bold>\<open>C5\<close>, amended. Each check keeps the recorded time stamps younger than 5000 ms
  (it drops those 5000 ms old or older) and lets the attempt through exactly when fewer
  than ten remain; a refused attempt leaves the state as it was (nothing is recorded) and
  \<open>send_message\<close> answers it with the rate-limit error alone; an attempt let through is
  appended to what was kept. Hence, for a socket without recorded attempts and any events
  of any sockets during which its window is not deleted (no \<open>leave_room\<close> or
  \<open>disconnect\<close> of that socket while it has a binding): if the clock readings of its
  messages do not decrease, no 5000 ms ever hold more than ten of its messages let
  through; of messages that lie less than 5000 ms from each other exactly the first ten
  are let through, so the eleventh is refused; and once everything recorded is at least
  5000 ms old the next attempt is let through again.
\<close>

theorem rate_limit_while_window_kept:
  "(fst (checkRateLimit sid now s) \<longleftrightarrow>
      length (filter (\<lambda>t. now - t < 5000) (stored s sid)) < 10)
   \<and> (\<not> fst (checkRateLimit sid now s) \<longrightarrow>
        snd (checkRateLimit sid now s) = s \<and>
        send_message sid now data s =
          (s, [Emit {sid} (Error ''Too many messages. Please slow down.'')]))
   \<and> (fst (checkRateLimit sid now s) \<longrightarrow>
        stored (snd (checkRateLimit sid now s)) sid =
          filter (\<lambda>t. now - t < 5000) (stored s sid) @ [now])
   \<and> (window_kept sid s es \<and> sorted (send_times sid es) \<and> stored s sid = [] \<longrightarrow>
        (\<forall>T. length (filter (in_window T) (passed sid s es)) \<le> 10))
   \<and> (window_kept sid s es \<and> stored s sid = [] \<and>
        (\<forall>t\<in>set (send_times sid es). \<forall>t'\<in>set (send_times sid es). t - t' < 5000) \<longrightarrow>
        passed sid s es = take 10 (send_times sid es))
   \<and> ((\<forall>t\<in>set (stored s sid). 5000 \<le> now - t) \<longrightarrow> fst (checkRateLimit sid now s))"
proof (intro conjI impI allI)
  show "fst (checkRateLimit sid now s) \<longleftrightarrow>
      length (filter (\<lambda>t. now - t < 5000) (stored s sid)) < 10"
    by (rule checkRateLimit_fst)
next
  assume "\<not> fst (checkRateLimit sid now s)"
  then show "snd (checkRateLimit sid now s) = s"
    by (rule checkRateLimit_False)
next
  assume "\<not> fst (checkRateLimit sid now s)"
  then show "send_message sid now data s =
          (s, [Emit {sid} (Error ''Too many messages. Please slow down.'')])"
    by (rule send_message_limited)
next
  assume "fst (checkRateLimit sid now s)"
  then show "stored (snd (checkRateLimit sid now s)) sid =
          filter (\<lambda>t. now - t < 5000) (stored s sid) @ [now]"
    using checkRateLimit_True [of sid now s] by (simp add: stored_def)
next
  fix T
  assume a: "window_kept sid s es \<and> sorted (send_times sid es) \<and> stored s sid = []"
  then have "passed sid s es = admitted sid s (send_times sid es)"
    by (simp add: passed_admitted)
  with a show "length (filter (in_window T) (passed sid s es)) \<le> 10"
    using admitted_window [of "send_times sid es" s sid T] by simp
next
  assume a: "window_kept sid s es \<and> stored s sid = [] \<and>
        (\<forall>t\<in>set (send_times sid es). \<forall>t'\<in>set (send_times sid es). t - t' < 5000)"
  then have "passed sid s es = admitted sid s (send_times sid es)"
    by (simp add: passed_admitted)
  with a show "passed sid s es = take 10 (send_times sid es)"
    using admitted_close [of s sid "send_times sid es"] by simp
next
  assume "\<forall>t\<in>set (stored s sid). 5000 \<le> now - t"
  then have "filter (\<lambda>t. now - t < 5000) (stored s sid) = []"
    by (auto simp: filter_empty_conv)
  then show "fst (checkRateLimit sid now s)"
    by (simp add: checkRateLimit_fst)
qed

lemma eleven_sends_kept: "window_kept sock1 init_state eleven_sends"
  by (simp add: eval_defs socks_distinct socks_not_lobby)

lemma eleven_sends_times:
  "send_times sock1 eleven_sends
     = [0, 500, 1000, 1500, 2000, 2500, 3000, 3500, 4000, 4500, 4999]"
  by (simp add: eleven_sends_def join_def socks_distinct)

theorem rate_limit_while_window_kept_witness:
  "passed sock1 init_state eleven_sends
     = [0, 500, 1000, 1500, 2000, 2500, 3000, 3500, 4000, 4500] \<and>
   length (filter (in_window 4999) (passed sock1 init_state eleven_sends)) \<le> 10 \<and>
   stored (snd (checkRateLimit sock1 0 init_state)) sock1 = [0] \<and>
   send_message sock1 4999 (Some hello) (run init_state ten_sends)
     = (run init_state ten_sends,
        [Emit {sock1} (Error ''Too many messages. Please slow down.'')]) \<and>
   fst (checkRateLimit sock1 5000 (run init_state ten_sends))"
proof -
  have a: "stored init_state sock1 = []"
    by (rule stored_init)
  have b: "stored (run init_state ten_sends) sock1 = replicate 10 0"
    unfolding ten_sends_state by (simp add: stored_def)
  have c: "\<not> fst (checkRateLimit sock1 4999 (run init_state ten_sends))"
    by (simp add: checkRateLimit_fst b)
  show ?thesis
    using rate_limit_while_window_kept [of sock1 0 init_state "Some hello" eleven_sends]
          rate_limit_while_window_kept
            [of sock1 4999 "run init_state ten_sends" "Some hello" "[]"]
          rate_limit_while_window_kept
            [of sock1 5000 "run init_state ten_sends" "Some hello" "[]"]
    by (simp add: a b c eleven_sends_kept eleven_sends_times)
qed

subsection \<open>The last member of a room\<close>

text \<open>
  \<^bold>\<open>C7\<close>, as stated, fails in three ways. A room joined under a name with white space
  around it, or left behind by a second \<open>join_room\<close>, keeps the member entry of a socket
  that disconnects, and stays in the listing. And \<open>leave_room\<close> emits
  \<open>user_list_update\<close> for the room it has just emptied, with the empty list, where
  \<open>disconnect\<close> checks that the room has members; when the room bears the id of a
  connected socket, that socket receives the event.
\<close>

theorem empty_room_listed_and_announced:
  "api_rooms (run init_state [(sock1, 0, Connect), (sock1, 0, join '' lobby '' ''alice''),
                              (sock1, 1, Disconnect)])
     = [('' lobby '', 1, [''alice''])] \<and>
   api_rooms (run init_state [(sock1, 0, Connect), (sock1, 0, join ''lobby'' ''alice''),
                              (sock1, 1, join ''games'' ''alice''), (sock1, 2, Disconnect)])
     = [(''lobby'', 1, [''alice''])] \<and>
   snd (handle (run init_state [(sock1, 0, Connect), (sock1, 0, join ''lobby'' ''alice'')])
          (sock1, 1, Leave_room))
     = [Emit {} (ReceiveMessage (SystemMessage ''alice left the room'' 1)),
        Emit {} (UserListUpdate [])] \<and>
   received
     (snd (handle (run init_state [(sock1, 0, Connect), (sock2, 0, Connect),
                                   (sock2, 0, join sock1 ''alice'')])
             (sock2, 1, Leave_room))) sock1
     = [ReceiveMessage (SystemMessage ''alice left the room'' 1), UserListUpdate []]"
  by (simp add: eval_defs sock_defs)

text \<open>
  \<^bold>\<open>C7\<close>, amended. When a socket whose binding names room \<open>r\<close> is the only socket
  with member entries in \<open>r\<close>, and it leaves by \<open>leave_room\<close> or by \<open>disconnect\<close>, then
  afterwards the registry has no entry for \<open>r\<close> and the room listing does not show
  \<open>r\<close>; and \<open>disconnect\<close> emits no \<open>user_list_update\<close>.
\<close>

theorem last_bound_member_leaves:
  assumes "userSockets s sid = Some ud"
    and "m_socketId ` set (getRoomUsers s (ud_room ud)) = {sid}"
    and "e = Leave_room \<or> e = Disconnect"
    and "s' = fst (handle s (sid, now, e))"
    and "out = snd (handle s (sid, now, e))"
  shows "map_of (rooms s') (ud_room ud) = None \<and>
         ud_room ud \<notin> fst ` set (api_rooms s') \<and>
         (e = Disconnect \<longrightarrow> (\<forall>names. UserListUpdate names \<notin> payload ` set out))"
proof -
  have gone: "map_of (rooms s') (ud_room ud) = None"
    using assms(3)
  proof
    assume "e = Leave_room"
    then have "s' = snd (removeUserFromRoom sid (socket_leave sid (ud_room ud) s))"
      using assms(1,4) by (simp add: leave_room_state)
    then show ?thesis
      using assms(1,2) map_of_removeUserFromRoom_last [of "socket_leave sid (ud_room ud) s" sid ud]
      by (simp add: userSockets_socket getRoomUsers_socket)
  next
    assume "e = Disconnect"
    then have "s' = snd (removeUserFromRoom sid (socket_leaveAll sid s))"
      using assms(4) by (simp add: disconnect_state)
    then show ?thesis
      using assms(1,2) map_of_removeUserFromRoom_last [of "socket_leaveAll sid s" sid ud]
      by (simp add: userSockets_socket getRoomUsers_socket)
  qed
  then have listed: "ud_room ud \<notin> fst ` set (api_rooms s')"
    by (simp add: api_rooms_keys map_of_eq_None_iff)
  have empty: "getRoomUsers s' (ud_room ud) = []"
    using gone by (simp add: getRoomUsers_def)
  have silent: "UserListUpdate names \<notin> payload ` set out" if d: "e = Disconnect" for names
  proof -
    have "fst (removeUserFromRoom sid (socket_leaveAll sid s)) = Some ud"
      using assms(1) by (simp add: fst_removeUserFromRoom userSockets_socket)
    moreover have "snd (removeUserFromRoom sid (socket_leaveAll sid s)) = s'"
      using d assms(4) by (simp add: disconnect_state)
    ultimately have "out = [io_to_emit s' (ud_room ud)
                  (ReceiveMessage (SystemMessage (ud_username ud @ '' left the room'') now))]"
      using d assms(5) empty
      by (cases "removeUserFromRoom sid (socket_leaveAll sid s)")
         (simp add: disconnect_def Let_def)
    then show ?thesis
      by (simp add: io_to_emit_def)
  qed
  from gone listed silent show ?thesis
    by blast
qed

lemma alice_in_lobby:
  "run init_state [(sock1, 0, Connect), (sock1, 0, join ''lobby'' ''alice'')] =
     \<lparr>rooms = [(''lobby'', [\<lparr>m_username = ''alice'', m_socketId = sock1, m_joinedAt = 0\<rparr>])],
      userSockets = [sock1 \<mapsto> \<lparr>ud_room = ''lobby'', ud_username = ''alice''\<rparr>],
      messageLimiter = Map.empty,
      sio_rooms = (\<lambda>r. {})(sock1 := {sock1}, ''lobby'' := {sock1})\<rparr>"
  by (simp add: eval_defs socks_not_lobby)

theorem last_bound_member_leaves_witness:
  "map_of (rooms (fst (handle (run init_state [(sock1, 0, Connect),
                                               (sock1, 0, join ''lobby'' ''alice'')])
                         (sock1, 5, Leave_room)))) ''lobby'' = None \<and>
   ''lobby'' \<notin> fst ` set (api_rooms (fst (handle
        (run init_state [(sock1, 0, Connect), (sock1, 0, join ''lobby'' ''alice'')])
        (sock1, 5, Disconnect)))) \<and>
   (\<forall>names. UserListUpdate names \<notin> payload ` set (snd (handle
        (run init_state [(sock1, 0, Connect), (sock1, 0, join ''lobby'' ''alice'')])
        (sock1, 5, Disconnect))))"
proof -
  let ?s = "run init_state [(sock1, 0, Connect), (sock1, 0, join ''lobby'' ''alice'')]"
  let ?ud = "\<lparr>ud_room = ''lobby'', ud_username = ''alice''\<rparr>"
  have a: "userSockets ?s sock1 = Some ?ud"
    unfolding alice_in_lobby by simp
  have b: "m_socketId ` set (getRoomUsers ?s (ud_room ?ud)) = {sock1}"
    unfolding alice_in_lobby by (simp add: getRoomUsers_def)
  note leave = last_bound_member_leaves [OF a b disjI1 [OF refl] refl refl, of 5]
  note drop = last_bound_member_leaves [OF a b disjI2 [OF refl] refl refl, of 5]
  from leave drop show ?thesis
    by simp
qed

subsection \<open>Rooms of socket.io and rooms of the registry\<close>

lemma sio_within_handle:
  assumes "sio_within s"
  shows "sio_within (fst (handle s e))"
proof -
  obtain sid now ev where e: "e = (sid, now, ev)"
    by (cases e) auto
  show ?thesis
  proof (cases ev)
    case Connect
    with assms e show ?thesis
      by (auto simp: sio_within_def connection_state sio_rooms_socket getRoomUsers_socket)
  next
    case (Join_room data)
    with assms e show ?thesis
      by (auto simp: sio_within_def join_room_state getRoomUsers_addUserToRoom
            frame_addUserToRoom sio_rooms_socket getRoomUsers_socket split: option.splits)
  next
    case (Send_message data)
    with assms e show ?thesis
      by (simp add: sio_within_def send_message_state getRoomUsers_def checkRateLimit_frame)
  next
    case (Typing data)
    with assms e show ?thesis
      by (simp add: typing_state)
  next
    case Leave_room
    with assms e show ?thesis
      by (auto simp: sio_within_def leave_room_state getRoomUsers_removeUserFromRoom
            sio_rooms_removeUserFromRoom sio_rooms_socket getRoomUsers_socket
            userSockets_socket split: option.splits)
  next
    case Disconnect
    with assms e show ?thesis
      by (auto simp: sio_within_def disconnect_state getRoomUsers_removeUserFromRoom
            sio_rooms_removeUserFromRoom sio_rooms_socket getRoomUsers_socket
            userSockets_socket split: option.splits)
  qed
qed

lemma sio_within_run: "sio_within (run init_state es)"
proof (rule run_invariant)
  show "sio_within init_state"
    by (simp add: sio_within_def init_state_def)
qed (rule sio_within_handle)

lemma sio_live_handle:
  assumes "sio_live D s"
  shows "sio_live (if ev = Disconnect then insert sid D else D) (fst (handle s (sid, now, ev)))"
proof (cases ev)
  case Connect
  with assms show ?thesis
    by (auto simp: sio_live_def connection_state sio_rooms_socket getRoomUsers_socket)
next
  case (Join_room data)
  with assms show ?thesis
    by (auto simp: sio_live_def join_room_state getRoomUsers_addUserToRoom
          frame_addUserToRoom sio_rooms_socket getRoomUsers_socket split: option.splits)
next
  case (Send_message data)
  with assms show ?thesis
    by (simp add: sio_live_def send_message_state getRoomUsers_def checkRateLimit_frame)
next
  case (Typing data)
  with assms show ?thesis
    by (simp add: typing_state)
next
  case Leave_room
  with assms show ?thesis
    by (auto simp: sio_live_def leave_room_state getRoomUsers_removeUserFromRoom
          sio_rooms_removeUserFromRoom sio_rooms_socket getRoomUsers_socket
          userSockets_socket split: option.splits)
next
  case Disconnect
  with assms show ?thesis
    by (auto simp: sio_live_def disconnect_state getRoomUsers_removeUserFromRoom
          sio_rooms_removeUserFromRoom sio_rooms_socket getRoomUsers_socket
          userSockets_socket split: option.splits)
qed

lemma sio_live_run:
  "sio_live D s \<Longrightarrow> sio_live (D \<union> closed es) (run s es)"
proof (induction es arbitrary: s D)
  case Nil
  then show ?case by simp
next
  case (Cons e es)
  obtain sid now ev where e: "e = (sid, now, ev)"
    by (cases e) auto
  let ?D = "if ev = Disconnect then insert sid D else D"
  have "sio_live ?D (fst (handle s e))"
    unfolding e by (rule sio_live_handle [OF Cons.prems])
  then have "sio_live (?D \<union> closed es) (run (fst (handle s e)) es)"
    by (rule Cons.IH)
  moreover have "?D \<union> closed es = D \<union> closed (e # es)"
    by (simp add: e)
  ultimately show ?case
    by simp
qed

lemma sio_live_init: "sio_live {} init_state"
  by (simp add: sio_live_def init_state_def getRoomUsers_def)

lemma join_room_out:
  assumes "join_succeeds s d"
  shows "snd (join_room sid now (Some d) s) =
     [Emit {sid} (RoomUsers (map m_username
         (getRoomUsers (fst (join_room sid now (Some d) s)) (the_string (jp_room d))))),
      Emit (insert sid (sio_rooms s (the_string (jp_room d))))
        (UserListUpdate (map m_username
         (getRoomUsers (fst (join_room sid now (Some d) s)) (the_string (jp_room d))))),
      Emit (sio_rooms s (the_string (jp_room d)) - {sid})
        (ReceiveMessage (SystemMessage (the_string (jp_username d) @ '' joined the room'') now))]"
  using assms
  by (auto simp: join_room_def join_succeeds_def Let_def socket_emit_def io_to_emit_def
        socket_to_emit_def frame_addUserToRoom sio_rooms_socket)

text \<open>
  \<^bold>\<open>C3\<close>, as stated, has the joiner receive the members present before it joined, so
  an empty list for the first joiner of a room. The handler reads the room after
  \<open>addUserToRoom\<close>: the first joiner receives the list that names itself.
\<close>

theorem room_users_names_the_joiner:
  "received (snd (handle (run init_state [(sock1, 0, Connect)])
                    (sock1, 0, join ''lobby'' ''alice''))) sock1
     = [RoomUsers [''alice''], UserListUpdate [''alice'']] \<and>
   RoomUsers [] \<notin> set (received (snd (handle (run init_state [(sock1, 0, Connect)])
                                          (sock1, 0, join ''lobby'' ''alice''))) sock1)"
  by (simp add: eval_defs socks_not_lobby)

text \<open>
  \<^bold>\<open>C3\<close>, amended. On a successful \<open>join_room\<close>, in a state reached from the empty
  server: the joiner receives \<open>room_users\<close> and then \<open>user_list_update\<close>, both with the
  user names of the room after the join. That list has an entry of the joiner; when the
  joiner had none in this room before, it is the earlier list followed by the joiner's
  trimmed user name (so the first joiner receives the one-element list of its own name,
  the second the first member's name and its own). Every other member of the room that
  has not disconnected receives the same \<open>user_list_update\<close> and then the system message
  made of the requested user name and \<open>joined the room\<close>. A socket that has no member
  entry in the room and whose id is not the name of the room receives nothing.
\<close>

theorem join_room_success:
  assumes "s = run init_state evs"
    and "join_succeeds s d"
    and "room = the_string (jp_room d)" and "username = the_string (jp_username d)"
    and "s' = fst (join_room sid now (Some d) s)"
    and "out = snd (join_room sid now (Some d) s)"
    and "names = map m_username (getRoomUsers s' room)"
  shows "received out sid = [RoomUsers names, UserListUpdate names] \<and>
         sid \<in> m_socketId ` set (getRoomUsers s' room) \<and>
         (sid \<notin> m_socketId ` set (getRoomUsers s room) \<longrightarrow>
            names = map m_username (getRoomUsers s room) @ [trim username]) \<and>
         (\<forall>m \<in> set (getRoomUsers s' room).
            m_socketId m \<noteq> sid \<and> m_socketId m \<notin> closed evs \<longrightarrow>
            received out (m_socketId m) =
              [UserListUpdate names,
               ReceiveMessage (SystemMessage (username @ '' joined the room'') now)]) \<and>
         (\<forall>c. c \<notin> m_socketId ` set (getRoomUsers s' room) \<and> c \<noteq> room \<longrightarrow>
            received out c = [])"
proof -
  have "sio_live ({} \<union> closed evs) (run init_state evs)"
    by (rule sio_live_run [OF sio_live_init])
  then have live: "m_socketId ` set (getRoomUsers s room) - closed evs \<subseteq> sio_rooms s room"
    by (simp add: sio_live_def assms(1))
  have within: "sio_rooms s room \<subseteq> insert room (m_socketId ` set (getRoomUsers s room))"
    using sio_within_run [of evs] by (simp add: sio_within_def assms(1))
  have users': "getRoomUsers s' room =
      (if sid \<in> m_socketId ` set (getRoomUsers s room) then getRoomUsers s room
       else getRoomUsers s room @
              [\<lparr>m_username = trim username, m_socketId = sid, m_joinedAt = now\<rparr>])"
    using assms(2)
    by (simp add: assms(3,4,5) join_room_state getRoomUsers_addUserToRoom getRoomUsers_socket)
  have out: "out = [Emit {sid} (RoomUsers names),
      Emit (insert sid (sio_rooms s room)) (UserListUpdate names),
      Emit (sio_rooms s room - {sid})
        (ReceiveMessage (SystemMessage (username @ '' joined the room'') now))]"
    using join_room_out [OF assms(2), of sid now] by (simp add: assms(3,4,5,6,7))
  have 1: "received out sid = [RoomUsers names, UserListUpdate names]"
    by (simp add: out received_def)
  have 2: "sid \<in> m_socketId ` set (getRoomUsers s' room)"
    by (auto simp: users')
  have 3: "sid \<notin> m_socketId ` set (getRoomUsers s room) \<longrightarrow>
            names = map m_username (getRoomUsers s room) @ [trim username]"
    by (simp add: assms(7) users')
  have 4: "received out (m_socketId m) =
              [UserListUpdate names,
               ReceiveMessage (SystemMessage (username @ '' joined the room'') now)]"
    if "m \<in> set (getRoomUsers s' room)" "m_socketId m \<noteq> sid \<and> m_socketId m \<notin> closed evs" for m
  proof -
    have "m_socketId m \<in> m_socketId ` set (getRoomUsers s room)"
      using that by (auto simp: users' split: if_splits)
    with that(2) live have "m_socketId m \<in> sio_rooms s room"
      by blast
    with that(2) show ?thesis
      by (simp add: out received_def)
  qed
  have 5: "received out c = []"
    if "c \<notin> m_socketId ` set (getRoomUsers s' room) \<and> c \<noteq> room" for c
  proof -
    have "c \<noteq> sid" "c \<notin> m_socketId ` set (getRoomUsers s room)"
      using that by (auto simp: users' split: if_splits)
    with that within have "c \<noteq> sid" "c \<notin> sio_rooms s room"
      by auto
    then show ?thesis
      by (simp add: out received_def)
  qed
  from 1 2 3 4 5 show ?thesis
    by blast
qed

lemma lobby_before_bob:
  "run init_state [(sock1, 0, Connect), (sock1, 0, join ''lobby'' ''alice''), (sock2, 0, Connect)] =
     \<lparr>rooms = [(''lobby'', [\<lparr>m_username = ''alice'', m_socketId = sock1, m_joinedAt = 0\<rparr>])],
      userSockets = [sock1 \<mapsto> \<lparr>ud_room = ''lobby'', ud_username = ''alice''\<rparr>],
      messageLimiter = Map.empty,
      sio_rooms = (\<lambda>r. {})(sock1 := {sock1}, ''lobby'' := {sock1}, sock2 := {sock2})\<rparr>"
  by (simp add: eval_defs socks_not_lobby socks_distinct)

theorem join_room_success_witness:
  "received (snd (join_room sock2 1
       (Some \<lparr>jp_room = JString ''lobby'', jp_username = JString ''bob''\<rparr>)
       (run init_state [(sock1, 0, Connect), (sock1, 0, join ''lobby'' ''alice''),
                        (sock2, 0, Connect)]))) sock2
     = [RoomUsers [''alice'', ''bob''], UserListUpdate [''alice'', ''bob'']] \<and>
   received (snd (join_room sock2 1
       (Some \<lparr>jp_room = JString ''lobby'', jp_username = JString ''bob''\<rparr>)
       (run init_state [(sock1, 0, Connect), (sock1, 0, join ''lobby'' ''alice''),
                        (sock2, 0, Connect)]))) sock1
     = [UserListUpdate [''alice'', ''bob''],
        ReceiveMessage (SystemMessage ''bob joined the room'' 1)] \<and>
   received (snd (join_room sock2 1
       (Some \<lparr>jp_room = JString ''lobby'', jp_username = JString ''bob''\<rparr>)
       (run init_state [(sock1, 0, Connect), (sock1, 0, join ''lobby'' ''alice''),
                        (sock2, 0, Connect)]))) sock3 = []"
proof -
  let ?d = "\<lparr>jp_room = JString ''lobby'', jp_username = JString ''bob''\<rparr>"
  let ?evs = "[(sock1, 0, Connect), (sock1, 0, join ''lobby'' ''alice''), (sock2, 0, Connect)]"
  let ?s = "run init_state ?evs"
  let ?alice = "\<lparr>m_username = ''alice'', m_socketId = sock1, m_joinedAt = 0\<rparr>"
  let ?bob = "\<lparr>m_username = ''bob'', m_socketId = sock2, m_joinedAt = 1\<rparr>"
  have b: "join_succeeds ?s ?d"
    unfolding lobby_before_bob by (simp add: eval_defs)
  have c: "getRoomUsers (fst (join_room sock2 1 (Some ?d) ?s)) ''lobby'' = [?alice, ?bob]"
    unfolding lobby_before_bob by (simp add: eval_defs socks_distinct)
  have e: "closed ?evs = {}"
    by (simp add: join_def)
  note w = join_room_success [OF refl b refl refl refl refl refl]
  from w have "received (snd (join_room sock2 1 (Some ?d) ?s)) sock2
     = [RoomUsers [''alice'', ''bob''], UserListUpdate [''alice'', ''bob'']]"
    by (simp add: c del: run.simps)
  moreover from w have "\<forall>m\<in>set [?alice, ?bob]. m_socketId m \<noteq> sock2 \<and>
        m_socketId m \<notin> closed ?evs \<longrightarrow>
        received (snd (join_room sock2 1 (Some ?d) ?s)) (m_socketId m)
          = [UserListUpdate [''alice'', ''bob''],
             ReceiveMessage (SystemMessage ''bob joined the room'' 1)]"
    by (simp add: c del: run.simps closed.simps)
  then have "received (snd (join_room sock2 1 (Some ?d) ?s)) sock1
     = [UserListUpdate [''alice'', ''bob''],
        ReceiveMessage (SystemMessage ''bob joined the room'' 1)]"
    by (simp add: e socks_distinct del: run.simps closed.simps)
  moreover from w have "sock3 \<notin> m_socketId ` set [?alice, ?bob] \<and> sock3 \<noteq> ''lobby'' \<longrightarrow>
      received (snd (join_room sock2 1 (Some ?d) ?s)) sock3 = []"
    by (simp add: c del: run.simps)
  then have "received (snd (join_room sock2 1 (Some ?d) ?s)) sock3 = []"
    by (simp add: socks_distinct socks_not_lobby)
  ultimately show ?thesis
    by (simp del: run.simps)
qed

subsection \<open>Bindings and member entries\<close>

lemma getRoomUsers_entry:
  "distinct (map fst (rooms s)) \<Longrightarrow> (r, us) \<in> set (rooms s) \<Longrightarrow> getRoomUsers s r = us"
  by (simp add: getRoomUsers_def)

lemma entry_getRoomUsers:
  "m \<in> set (getRoomUsers s r) \<Longrightarrow> (r, getRoomUsers s r) \<in> set (rooms s)"
  by (auto simp: getRoomUsers_def split: option.splits dest: map_of_SomeD)

lemma set_memberships:
  "set (memberships s c) =
     {(r, m_username m) | r us m. (r, us) \<in> set (rooms s) \<and> m \<in> set us \<and> m_socketId m = c}"
  by (auto simp: memberships_def)

lemma filter_singleton:
  "distinct (map g xs) \<Longrightarrow> x \<in> set xs \<Longrightarrow> filter (\<lambda>y. g y = g x) xs = [x]"
proof (induction xs)
  case Nil
  then show ?case by simp
next
  case (Cons a xs)
  show ?case
  proof (cases "a = x")
    case True
    have "g y \<noteq> g x" if "y \<in> set xs" for y
      using Cons.prems(1) True that by (auto simp: image_iff)
    then have "filter (\<lambda>y. g y = g x) xs = []"
      by (simp add: filter_empty_conv)
    with True show ?thesis by simp
  next
    case False
    with Cons show ?thesis by auto
  qed
qed

lemma concat_single:
  assumes "distinct (map fst xs)" and "(k, v) \<in> set xs"
    and "\<And>k' v'. (k', v') \<in> set xs \<Longrightarrow> k' \<noteq> k \<Longrightarrow> f (k', v') = []"
  shows "concat (map f xs) = f (k, v)"
  using assms
proof (induction xs)
  case Nil
  then show ?case by simp
next
  case (Cons a xs)
  show ?case
  proof (cases "a = (k, v)")
    case True
    have "k' \<noteq> k" if "(k', v') \<in> set xs" for k' v'
      using Cons.prems(1) True that by force
    then have "\<forall>p \<in> set xs. f p = []"
      using Cons.prems(3) by force
    then have "concat (map f xs) = []"
      by simp
    with True show ?thesis by simp
  next
    case False
    with Cons.prems have "fst a \<noteq> k"
      by (cases a) (force simp: image_iff)
    then have "f a = []"
      using Cons.prems(3) [of "fst a" "snd a"] by simp
    moreover have "concat (map f xs) = f (k, v)"
      by (rule Cons.IH) (use Cons.prems False in auto)
    ultimately show ?thesis by simp
  qed
qed

lemma registry_inv_corresponds:
  assumes "registry_inv s"
  shows "corresponds s c"
proof (cases "userSockets s c")
  case None
  have "set (memberships s c) = {}"
  proof (rule ccontr)
    assume "set (memberships s c) \<noteq> {}"
    then obtain r us m where "(r, us) \<in> set (rooms s)" "m \<in> set us" "m_socketId m = c"
      by (auto simp: set_memberships)
    moreover from this assms have "getRoomUsers s r = us"
      by (simp add: registry_inv_def getRoomUsers_entry)
    ultimately have "userSockets s c \<noteq> None"
      using assms by (auto simp: registry_inv_def)
    with None show False by simp
  qed
  with None show ?thesis
    by (simp add: corresponds_def)
next
  case (Some ud)
  let ?r = "ud_room ud"
  let ?f = "\<lambda>(room, users).
              map (\<lambda>u. (room, m_username u)) (filter (\<lambda>u. m_socketId u = c) users)"
  have dist: "distinct (map fst (rooms s))"
    using assms by (simp add: registry_inv_def)
  from Some assms have "c \<in> m_socketId ` set (getRoomUsers s ?r)"
    unfolding registry_inv_def by blast
  then obtain m where m: "m \<in> set (getRoomUsers s ?r)" "m_socketId m = c"
    by auto
  then have "userSockets s c = Some \<lparr>ud_room = ?r, ud_username = m_username m\<rparr>"
    using assms by (auto simp: registry_inv_def)
  with Some have name: "m_username m = ud_username ud"
    by (cases ud) simp
  have "filter (\<lambda>u. m_socketId u = m_socketId m) (getRoomUsers s ?r) = [m]"
    by (rule filter_singleton) (use assms m in \<open>auto simp: registry_inv_def\<close>)
  then have here: "?f (?r, getRoomUsers s ?r) = [(?r, ud_username ud)]"
    by (simp add: m name)
  have others: "?f (k', v') = []" if kv: "(k', v') \<in> set (rooms s)" and ne: "k' \<noteq> ?r"
    for k' v'
  proof -
    have "m_socketId u \<noteq> c" if "u \<in> set v'" for u
    proof
      assume "m_socketId u = c"
      moreover have "getRoomUsers s k' = v'"
        by (rule getRoomUsers_entry [OF dist kv])
      ultimately have "userSockets s c = Some \<lparr>ud_room = k', ud_username = m_username u\<rparr>"
        using assms that by (auto simp: registry_inv_def)
      with Some ne show False by auto
    qed
    then show ?thesis
      by (simp add: filter_empty_conv)
  qed
  have "concat (map ?f (rooms s)) = ?f (?r, getRoomUsers s ?r)"
    by (rule concat_single [where f = ?f, OF dist entry_getRoomUsers [OF m(1)] others])
  with here Some show ?thesis
    by (simp add: corresponds_def memberships_def)
qed

lemma registry_inv_cong:
  "rooms s' = rooms s \<Longrightarrow> userSockets s' = userSockets s \<Longrightarrow> registry_inv s' = registry_inv s"
  by (simp add: registry_inv_def getRoomUsers_def)

lemma registry_inv_init: "registry_inv init_state"
  by (simp add: registry_inv_def init_state_def getRoomUsers_def)

lemma registry_inv_unbound:
  "registry_inv s \<Longrightarrow> userSockets s c = None \<Longrightarrow> c \<notin> m_socketId ` set (getRoomUsers s r)"
  by (auto simp: registry_inv_def)

lemma registry_inv_addUserToRoom:
  assumes inv: "registry_inv s" and unbound: "userSockets s c = None"
    and trimmed: "trim room = room"
  shows "registry_inv (addUserToRoom room u c now s)"
proof -
  let ?s = "addUserToRoom room u c now s"
  let ?new = "\<lparr>m_username = trim u, m_socketId = c, m_joinedAt = now\<rparr>"
  have fresh: "c \<notin> m_socketId ` set (getRoomUsers s r)" for r
    by (rule registry_inv_unbound [OF inv unbound])
  have users: "getRoomUsers ?s r =
      (if r = room then getRoomUsers s room @ [?new] else getRoomUsers s r)" for r
    using fresh [of room] by (simp add: getRoomUsers_addUserToRoom)
  have bind: "userSockets ?s = (userSockets s)(c \<mapsto> \<lparr>ud_room = room, ud_username = trim u\<rparr>)"
    by (simp add: userSockets_addUserToRoom trimmed)
  have 1: "distinct (map fst (rooms ?s))"
    using inv by (simp add: registry_inv_def distinct_addUserToRoom)
  have 2: "distinct (map m_socketId (getRoomUsers ?s r))" for r
    using inv fresh [of room] by (simp add: users registry_inv_def)
  have 3: "userSockets ?s (m_socketId m) = Some \<lparr>ud_room = r, ud_username = m_username m\<rparr>"
    if "m \<in> set (getRoomUsers ?s r)" for r m
  proof (cases "m_socketId m = c")
    case True
    with that fresh [of r] fresh [of room] have "r = room \<and> m = ?new"
      by (auto simp: users split: if_splits)
    then show ?thesis
      by (simp add: bind)
  next
    case False
    with that have "m \<in> set (getRoomUsers s r)"
      by (auto simp: users split: if_splits)
    with inv False show ?thesis
      by (simp add: bind registry_inv_def)
  qed
  have 4: "c' \<in> m_socketId ` set (getRoomUsers ?s (ud_room ud))"
    if "userSockets ?s c' = Some ud" for c' ud
  proof (cases "c' = c")
    case True
    with that have "ud_room ud = room"
      by (auto simp: bind)
    with True show ?thesis
      by (simp add: users)
  next
    case False
    with that have "userSockets s c' = Some ud"
      by (simp add: bind)
    with inv have "c' \<in> m_socketId ` set (getRoomUsers s (ud_room ud))"
      unfolding registry_inv_def by blast
    then show ?thesis
      by (auto simp: users)
  qed
  from 1 2 3 4 show ?thesis
    unfolding registry_inv_def by blast
qed

lemma registry_inv_removeUserFromRoom:
  assumes inv: "registry_inv s"
  shows "registry_inv (snd (removeUserFromRoom c s))"
proof (cases "userSockets s c")
  case None
  then show ?thesis
    using inv by (simp add: removeUserFromRoom_def)
next
  case (Some ud)
  let ?s = "snd (removeUserFromRoom c s)"
  have users: "getRoomUsers ?s r =
      (if r = ud_room ud then filter (\<lambda>u. m_socketId u \<noteq> c) (getRoomUsers s r)
       else getRoomUsers s r)" for r
    by (simp add: getRoomUsers_removeUserFromRoom Some)
  have bind: "userSockets ?s = (userSockets s)(c := None)"
    by (rule userSockets_removeUserFromRoom)
  have only: "r = ud_room ud" if "m \<in> set (getRoomUsers s r)" "m_socketId m = c" for r m
  proof -
    have "userSockets s c = Some \<lparr>ud_room = r, ud_username = m_username m\<rparr>"
      using inv that by (auto simp: registry_inv_def)
    with Some show ?thesis by auto
  qed
  have 1: "distinct (map fst (rooms ?s))"
    using inv by (simp add: registry_inv_def distinct_removeUserFromRoom)
  have 2: "distinct (map m_socketId (getRoomUsers ?s r))" for r
    using inv by (simp add: users registry_inv_def distinct_map_filter)
  have 3: "userSockets ?s (m_socketId m) = Some \<lparr>ud_room = r, ud_username = m_username m\<rparr>"
    if "m \<in> set (getRoomUsers ?s r)" for r m
  proof -
    have "m \<in> set (getRoomUsers s r)"
      using that by (auto simp: users split: if_splits)
    moreover have "m_socketId m \<noteq> c"
      using that only [of m r] by (auto simp: users split: if_splits)
    ultimately show ?thesis
      using inv by (simp add: bind registry_inv_def)
  qed
  have 4: "c' \<in> m_socketId ` set (getRoomUsers ?s (ud_room ud'))"
    if "userSockets ?s c' = Some ud'" for c' ud'
  proof -
    have ne: "c' \<noteq> c" and "userSockets s c' = Some ud'"
      using that by (auto simp: bind split: if_splits)
    with inv have "c' \<in> m_socketId ` set (getRoomUsers s (ud_room ud'))"
      unfolding registry_inv_def by blast
    with ne show ?thesis
      by (auto simp: users)
  qed
  from 1 2 3 4 show ?thesis
    unfolding registry_inv_def by blast
qed

lemma registry_inv_handle:
  assumes "registry_inv s" and "allowed s e"
  shows "registry_inv (fst (handle s e))"
proof -
  obtain sid now ev where e: "e = (sid, now, ev)"
    by (cases e) auto
  show ?thesis
  proof (cases ev)
    case Connect
    have "registry_inv (socket_join sid sid s)"
      using assms(1) registry_inv_cong [OF rooms_socket(1) userSockets_socket(1)]
      by simp
    then show ?thesis
      by (simp add: e Connect connection_state)
  next
    case (Join_room data)
    show ?thesis
    proof (cases "\<exists>d. data = Some d \<and> join_succeeds s d")
      case True
      then obtain d where d: "data = Some d" "join_succeeds s d"
        by blast
      let ?room = "the_string (jp_room d)"
      from assms(2) d have ok: "userSockets s sid = None" "trim ?room = ?room"
        by (simp_all add: e Join_room)
      have "registry_inv (socket_join sid ?room s)"
        using assms(1) registry_inv_cong [OF rooms_socket(1) userSockets_socket(1)]
          registry_inv_cong [OF rooms_socket(2) userSockets_socket(2)]
          registry_inv_cong [OF rooms_socket(3) userSockets_socket(3)]
        by simp
      then have "registry_inv (addUserToRoom ?room (the_string (jp_username d)) sid now
                   (socket_join sid ?room s))"
        by (rule registry_inv_addUserToRoom) (simp_all add: ok userSockets_socket)
      with d show ?thesis
        by (simp add: e Join_room join_room_state)
    next
      case False
      with assms(1) show ?thesis
        by (auto simp: e Join_room join_room_state split: option.splits)
    qed
  next
    case (Send_message data)
    have "registry_inv (snd (checkRateLimit sid now s))"
      using assms(1) registry_inv_cong [OF checkRateLimit_frame(1,2)] by simp
    then show ?thesis
      by (simp add: e Send_message send_message_state)
  next
    case (Typing data)
    with assms(1) show ?thesis
      by (simp add: e typing_state)
  next
    case Leave_room
    show ?thesis
    proof (cases "userSockets s sid")
      case None
      with assms(1) show ?thesis
        by (simp add: e Leave_room leave_room_state)
    next
      case (Some ud)
      have "registry_inv (socket_leave sid (ud_room ud) s)"
        using assms(1) registry_inv_cong [OF rooms_socket(1) userSockets_socket(1)]
          registry_inv_cong [OF rooms_socket(2) userSockets_socket(2)]
          registry_inv_cong [OF rooms_socket(3) userSockets_socket(3)]
        by simp
      then have "registry_inv (snd (removeUserFromRoom sid (socket_leave sid (ud_room ud) s)))"
        by (rule registry_inv_removeUserFromRoom)
      with Some show ?thesis
        by (simp add: e Leave_room leave_room_state)
    qed
  next
    case Disconnect
    have "registry_inv (socket_leaveAll sid s)"
      using assms(1) registry_inv_cong [OF rooms_socket(1) userSockets_socket(1)]
          registry_inv_cong [OF rooms_socket(2) userSockets_socket(2)]
          registry_inv_cong [OF rooms_socket(3) userSockets_socket(3)]
        by simp
    then have "registry_inv (snd (removeUserFromRoom sid (socket_leaveAll sid s)))"
      by (rule registry_inv_removeUserFromRoom)
    then show ?thesis
      by (simp add: e Disconnect disconnect_state)
  qed
qed

lemma registry_inv_run:
  "registry_inv s \<Longrightarrow> disciplined s es \<Longrightarrow> registry_inv (run s es)"
  by (induction es arbitrary: s) (auto intro: registry_inv_handle)

lemma length_concat_ge:
  "x \<in> set xs \<Longrightarrow> length (f x) \<le> length (concat (map f xs))"
  by (induction xs) auto

lemma distinct_filter_le1:
  "(\<And>c. length (filter (\<lambda>u. g u = c) us) \<le> 1) \<Longrightarrow> distinct (map g us)"
proof (induction us)
  case Nil
  then show ?case by simp
next
  case (Cons a us)
  have "g a \<notin> g ` set us"
  proof
    assume "g a \<in> g ` set us"
    then obtain y where that: "y \<in> set us" and "g y = g a"
      by force
    with that have "filter (\<lambda>u. g u = g a) us \<noteq> []"
      by (auto simp: filter_empty_conv)
    then have "0 < length (filter (\<lambda>u. g u = g a) us)"
      by simp
    with Cons.prems [of "g a"] show False
      by simp
  qed
  moreover have "distinct (map g us)"
  proof (rule Cons.IH)
    fix c
    show "length (filter (\<lambda>u. g u = c) us) \<le> 1"
      using Cons.prems [of c] by (simp split: if_splits)
  qed
  ultimately show ?case
    by simp
qed

lemma corresponds_length:
  "corresponds s c \<Longrightarrow> length (memberships s c) \<le> 1"
  by (auto simp: corresponds_def split: option.splits)

lemma corresponds_registry_inv:
  assumes dist: "distinct (map fst (rooms s))" and cor: "\<And>c. corresponds s c"
  shows "registry_inv s"
proof -
  have 2: "distinct (map m_socketId (getRoomUsers s r))" for r
  proof (cases "getRoomUsers s r = []")
    case True
    then show ?thesis by simp
  next
    case False
    then obtain m where "m \<in> set (getRoomUsers s r)"
      by (cases "getRoomUsers s r") auto
    then have entry: "(r, getRoomUsers s r) \<in> set (rooms s)"
      by (rule entry_getRoomUsers)
    show ?thesis
    proof (rule distinct_filter_le1)
      fix c
      let ?f = "\<lambda>(room, users).
              map (\<lambda>u. (room, m_username u)) (filter (\<lambda>u. m_socketId u = c) users)"
      have "length (?f (r, getRoomUsers s r)) \<le> length (concat (map ?f (rooms s)))"
        by (rule length_concat_ge [OF entry])
      then have "length (filter (\<lambda>u. m_socketId u = c) (getRoomUsers s r))
                   \<le> length (memberships s c)"
        by (simp add: memberships_def)
      with corresponds_length [OF cor, of c]
      show "length (filter (\<lambda>u. m_socketId u = c) (getRoomUsers s r)) \<le> 1"
        by simp
    qed
  qed
  have 3: "userSockets s (m_socketId m) = Some \<lparr>ud_room = r, ud_username = m_username m\<rparr>"
    if "m \<in> set (getRoomUsers s r)" for r m
  proof -
    have "(r, m_username m) \<in> set (memberships s (m_socketId m))"
      using entry_getRoomUsers [OF that] that by (auto simp: set_memberships)
    with cor [of "m_socketId m"] show ?thesis
      by (cases "userSockets s (m_socketId m)") (auto simp: corresponds_def)
  qed
  have 4: "c \<in> m_socketId ` set (getRoomUsers s (ud_room ud))"
    if "userSockets s c = Some ud" for c ud
  proof -
    have "(ud_room ud, ud_username ud) \<in> set (memberships s c)"
      using cor [of c] that by (simp add: corresponds_def)
    then obtain us m where "(ud_room ud, us) \<in> set (rooms s)" "m \<in> set us" "m_socketId m = c"
      by (auto simp: set_memberships)
    moreover from this dist have "getRoomUsers s (ud_room ud) = us"
      by (simp add: getRoomUsers_entry)
    ultimately show ?thesis
      by auto
  qed
  from dist 2 3 4 show ?thesis
    unfolding registry_inv_def by blast
qed

text \<open>
  \<^bold>\<open>C1\<close>, as stated, fails in two ways. A room given with white space around it is
  stored under the raw key while the binding records the trimmed name; and a socket that
  joins a second room keeps its member entry in the first one.
\<close>

theorem binding_without_matching_member:
  "\<not> corresponds (run init_state [(sock1, 0, Connect), (sock1, 0, join '' lobby '' ''alice'')])
       sock1 \<and>
   \<not> corresponds (run init_state [(sock1, 0, Connect), (sock1, 0, join ''lobby'' ''alice''),
                                  (sock1, 1, join ''games'' ''alice'')]) sock1"
  by (simp add: eval_defs sock_defs corresponds_def memberships_def)

text \<open>
  \<^bold>\<open>C1\<close>, amended. Take event sequences in which every \<open>join_room\<close> that succeeds
  comes from a socket without a binding and names a room without white space at either
  end. In every state such a sequence reaches from the empty server, each socket either
  has no binding and no member entry at all, or has a binding and exactly one member
  entry, which stands in the room of the binding under the user name of the binding.
  Every handler preserves this (with unique room keys) for an event of that kind.
\<close>

theorem binding_matches_membership:
  "(disciplined init_state evs \<longrightarrow> corresponds (run init_state evs) c) \<and>
   (distinct (map fst (rooms s)) \<and> (\<forall>c'. corresponds s c') \<and> allowed s e \<longrightarrow>
      distinct (map fst (rooms (fst (handle s e)))) \<and>
      (\<forall>c'. corresponds (fst (handle s e)) c'))"
proof (intro conjI impI)
  assume "disciplined init_state evs"
  then have "registry_inv (run init_state evs)"
    by (rule registry_inv_run [OF registry_inv_init])
  then show "corresponds (run init_state evs) c"
    by (rule registry_inv_corresponds)
next
  assume a: "distinct (map fst (rooms s)) \<and> (\<forall>c'. corresponds s c') \<and> allowed s e"
  then have "registry_inv s"
    by (intro corresponds_registry_inv) simp_all
  with a have inv: "registry_inv (fst (handle s e))"
    by (intro registry_inv_handle) simp_all
  then show "distinct (map fst (rooms (fst (handle s e))))"
    by (simp add: registry_inv_def)
  from inv show "\<forall>c'. corresponds (fst (handle s e)) c'"
    by (simp add: registry_inv_corresponds)
qed

theorem binding_matches_membership_witness:
  "corresponds (run init_state [(sock1, 0, Connect), (sock1, 0, join ''lobby'' ''alice''),
                                (sock2, 1, Connect), (sock2, 1, join ''lobby'' ''bob''),
                                (sock1, 2, Leave_room)]) sock2 \<and>
   distinct (map fst (rooms (fst (handle init_state (sock1, 0, join ''lobby'' ''alice''))))) \<and>
   (\<forall>c'. corresponds (fst (handle init_state (sock1, 0, join ''lobby'' ''alice''))) c')"
proof -
  let ?evs = "[(sock1, 0, Connect), (sock1, 0, join ''lobby'' ''alice''),
               (sock2, 1, Connect), (sock2, 1, join ''lobby'' ''bob''), (sock1, 2, Leave_room)]"
  have a: "disciplined init_state ?evs"
    by (simp add: eval_defs sock_defs)
  have b: "distinct (map fst (rooms init_state))" "\<forall>c'. corresponds init_state c'"
    "allowed init_state (sock1, 0, join ''lobby'' ''alice'')"
    by (simp_all add: eval_defs corresponds_def memberships_def)
  from binding_matches_membership
         [of ?evs sock2 init_state "(sock1, 0, join ''lobby'' ''alice'')"] a b
  show ?thesis
    by blast
qed

subsection \<open>Where the code departs from the specification\<close>

text \<open>
  \<^bold>\<open>C2.\<close> The user names of a room should be pairwise distinct, whatever the case of
  their letters. \<open>userExistsInRoom\<close> compares the stored, trimmed names with the
  requested name as it was sent, while \<open>addUserToRoom\<close> stores the trimmed request:
  after \<open>alice\<close>, a request for \<open>alice\<close> followed by a blank is accepted, and the room has
  two members called \<open>alice\<close>.
\<close>

theorem same_name_twice_in_a_room:
  "map m_username (getRoomUsers
     (run init_state [(sock1, 0, Connect), (sock1, 0, join ''lobby'' ''alice''),
                      (sock2, 1, Connect), (sock2, 1, join ''lobby'' ''alice '')])
     ''lobby'') = [''alice'', ''alice''] \<and>
   \<not> distinct (map (\<lambda>u. toLowerCase (m_username u)) (getRoomUsers
     (run init_state [(sock1, 0, Connect), (sock1, 0, join ''lobby'' ''alice''),
                      (sock2, 1, Connect), (sock2, 1, join ''lobby'' ''alice '')])
     ''lobby''))"
  by (simp add: eval_defs sock_defs)

text \<open>
  \<^bold>\<open>C8.\<close> A \<open>typing\<close> event should be relayed only when room and user name are those
  of the sender's binding. The handler compares the room alone (\<open>send_message\<close> compares
  both): a socket bound as \<open>alice\<close>, has a typing notice relayed under the name \<open>bob\<close>.
\<close>

theorem typing_relays_foreign_username:
  "userSockets (run init_state [(sock1, 0, Connect), (sock1, 0, join ''lobby'' ''alice''),
                                (sock2, 1, Connect), (sock2, 1, join ''lobby'' ''bob'')]) sock1
     = Some \<lparr>ud_room = ''lobby'', ud_username = ''alice''\<rparr> \<and>
   snd (handle (run init_state [(sock1, 0, Connect), (sock1, 0, join ''lobby'' ''alice''),
                                (sock2, 1, Connect), (sock2, 1, join ''lobby'' ''bob'')])
          (sock1, 2, Typing (Some \<lparr>tp_room = JString ''lobby'', tp_username = JString ''bob'',
                                    tp_isTyping = True\<rparr>)))
     = [Emit {sock2} (UserTyping (JString ''bob'') True)]"
  by (simp add: eval_defs sock_defs insert_Diff_if)

text \<open>
  \<^bold>\<open>C9.\<close> No rate-limiter entry should remain after a socket disconnects.
  \<open>removeUserFromRoom\<close> deletes the entry only inside the branch for a socket with a
  binding: a socket never joins, sends one message and disconnects, and its entry stays.
\<close>

theorem rate_window_survives_disconnect:
  "userSockets (run init_state [(sock1, 0, Connect), (sock1, 0, Send_message (Some hello))]) sock1
     = None \<and>
   messageLimiter (run init_state [(sock1, 0, Connect), (sock1, 0, Send_message (Some hello)),
                                   (sock1, 1, Disconnect)]) sock1
     = Some [0]"
  by (simp add: eval_defs)

end
